theory Spec2Isabelle
  imports Complex_Main "HOL-Library.Word" "HOL-Library.Sublist"
begin

unbundle bit_operations_syntax

section \<open>Strings and bytes\<close>

text \<open>
  A JavaScript string is modelled as the list of its Unicode code points, a
  \<^verbatim>\<open>Uint8Array\<close> as a list of bytes. A code point in the range D800 to DFFF stands
  for an unpaired surrogate. (JavaScript counts a character beyond U+FFFF as two
  code units; the patterns and separators of the source are all below.) String
  literals of the source are written \<open>ascii ''...''\<close>.
\<close>

type_synonym ustring = "nat list"
type_synonym byte = "8 word"

definition ascii :: "string \<Rightarrow> ustring" where
  "ascii s = map of_char s"

text \<open>
  \<^verbatim>\<open>text.replace(/pat/g, rep)\<close> for a literal, non-empty pattern and a replacement
  without \<^verbatim>\<open>$\<close>: the text is scanned from the left, each match is replaced and the
  scan goes on behind the match.
\<close>

function replaceAll :: "ustring \<Rightarrow> ustring \<Rightarrow> ustring \<Rightarrow> ustring" where
  "replaceAll pat rep [] = []"
| "replaceAll pat rep (c # cs) =
     (if pat \<noteq> [] \<and> prefix pat (c # cs)
      then rep @ replaceAll pat rep (drop (length pat) (c # cs))
      else c # replaceAll pat rep cs)"
  by pat_completeness auto
termination
  by (relation "measure (\<lambda>(pat, rep, s). length s)") auto

text \<open>
  \<^verbatim>\<open>s.split(sep)\<close> for a non-empty literal separator: the pieces between the
  matches of \<open>sep\<close>, found from the left; the empty string gives one empty piece.
\<close>

function split :: "ustring \<Rightarrow> ustring \<Rightarrow> ustring list" where
  "split sep [] = [[]]"
| "split sep (c # cs) =
     (if sep \<noteq> [] \<and> prefix sep (c # cs)
      then [] # split sep (drop (length sep) (c # cs))
      else (case split sep cs of [] \<Rightarrow> [[c]] | p # ps \<Rightarrow> (c # p) # ps))"
  by pat_completeness auto
termination
  by (relation "measure (\<lambda>(sep, s). length s)") auto

text \<open>\<^verbatim>\<open>s.indexOf(pat)\<close>; \<open>None\<close> stands for \<^verbatim>\<open>-1\<close>.\<close>

fun indexOf :: "ustring \<Rightarrow> ustring \<Rightarrow> nat option" where
  "indexOf pat [] = (if pat = [] then Some 0 else None)"
| "indexOf pat (c # cs) =
     (if prefix pat (c # cs) then Some 0 else map_option Suc (indexOf pat cs))"

text \<open>
  The white space of \<^verbatim>\<open>\s\<close> in a regular expression and of \<^verbatim>\<open>trim()\<close>: TAB, LF, VT,
  FF, CR, SPACE, U+00A0, U+1680, U+2000 to U+200A, U+2028, U+2029, U+202F, U+205F,
  U+3000 and U+FEFF.
\<close>

definition whitespace :: "nat \<Rightarrow> bool" where
  "whitespace c =
     (c \<in> set [9, 10, 11, 12, 13, 32, 160, 5760, 8232, 8233, 8239, 8287, 12288, 65279]
      \<or> (8192 \<le> c \<and> c \<le> 8202))"

definition trim :: "ustring \<Rightarrow> ustring" where
  "trim s = rev (dropWhile whitespace (rev (dropWhile whitespace s)))"

text \<open>
  \<^verbatim>\<open>new TextEncoder().encode(s)\<close>: UTF-8; an unpaired surrogate is encoded as
  U+FFFD.
\<close>

definition encode_code_point :: "nat \<Rightarrow> byte list" where
  "encode_code_point c =
     map word_of_nat
       (if c < 128 then [c]
        else if c < 2048 then [192 + c div 64, 128 + c mod 64]
        else if 55296 \<le> c \<and> c < 57344 then [239, 191, 189]
        else if c < 65536
          then [224 + c div 4096, 128 + (c div 64) mod 64, 128 + c mod 64]
        else if c < 1114112
          then [240 + c div 262144, 128 + (c div 4096) mod 64,
                128 + (c div 64) mod 64, 128 + c mod 64]
        else [239, 191, 189])"

definition TextEncoder_encode :: "ustring \<Rightarrow> byte list" where
  "TextEncoder_encode s = concat (map encode_code_point s)"

text \<open>
  \<^verbatim>\<open>new TextDecoder().decode(bytes)\<close>: the UTF-8 decoder of the Encoding Standard,
  not fatal. \<open>utf8_decode cp needed lower upper bytes\<close> holds the code point read so
  far, the number of continuation bytes still needed, and the bounds of the next
  byte. A byte that cannot continue a sequence ends it with U+FFFD and is read again
  as the start of a sequence; a sequence cut by the end of the input gives U+FFFD.
\<close>

fun utf8_decode :: "nat \<Rightarrow> nat \<Rightarrow> nat \<Rightarrow> nat \<Rightarrow> byte list \<Rightarrow> ustring" where
  "utf8_decode cp needed lower upper [] = (if needed = 0 then [] else [65533])"
| "utf8_decode cp needed lower upper (byte # bytes) =
     (let b = unat byte in
      if needed \<noteq> 0 \<and> lower \<le> b \<and> b \<le> upper then
        (if needed = 1 then (cp * 64 + b mod 64) # utf8_decode 0 0 128 191 bytes
         else utf8_decode (cp * 64 + b mod 64) (needed - 1) 128 191 bytes)
      else
        (if needed = 0 then [] else [65533]) @
        (if b < 128 then b # utf8_decode 0 0 128 191 bytes
         else if 194 \<le> b \<and> b \<le> 223 then utf8_decode (b mod 32) 1 128 191 bytes
         else if 224 \<le> b \<and> b \<le> 239 then
           utf8_decode (b mod 16) 2 (if b = 224 then 160 else 128)
             (if b = 237 then 159 else 191) bytes
         else if 240 \<le> b \<and> b \<le> 244 then
           utf8_decode (b mod 8) 3 (if b = 240 then 144 else 128)
             (if b = 244 then 143 else 191) bytes
         else 65533 # utf8_decode 0 0 128 191 bytes))"

text \<open>The decoder drops a byte order mark at the start of the input.\<close>

definition TextDecoder_decode :: "byte list \<Rightarrow> ustring" where
  "TextDecoder_decode bytes =
     utf8_decode 0 0 128 191
       (if take 3 bytes = [239, 187, 191] then drop 3 bytes else bytes)"

section \<open>isomorphic-utils: escape and unescape\<close>

text \<open>
  \<^verbatim>\<open>function escape(text) {
    return text.replace(/&/g, "&amp;").replace(/</g, "&lt;").replace(/>/g, "&gt;")
               .replace(/"/g, "&quot;").replace(/'/g, "&apos;"); }\<close>
\<close>

definition escape :: "ustring \<Rightarrow> ustring" where
  "escape text =
     replaceAll [39] (ascii ''&apos;'')
      (replaceAll [34] (ascii ''&quot;'')
        (replaceAll [62] (ascii ''&gt;'')
          (replaceAll [60] (ascii ''&lt;'')
            (replaceAll [38] (ascii ''&amp;'') text))))"

text \<open>
  \<^verbatim>\<open>function unescape(text) {
    return text.replace(/&quot;/g, '"').replace(/&apos;/g, "'").replace(/&lt;/g, "<")
               .replace(/&gt;/g, ">").replace(/&amp;/g, "&"); }\<close>
\<close>

definition unescape :: "ustring \<Rightarrow> ustring" where
  "unescape text =
     replaceAll (ascii ''&amp;'') [38]
      (replaceAll (ascii ''&gt;'') [62]
        (replaceAll (ascii ''&lt;'') [60]
          (replaceAll (ascii ''&apos;'') [39]
            (replaceAll (ascii ''&quot;'') [34] text))))"

text \<open>
  \<^verbatim>\<open>function removeIncompatibleCharacters(str)\<close> removes every occurrence of each of
  the characters \<^verbatim>\<open>* / ( ) [ ] { } $ % ^ @ # + = | \ ~ ` > < " &\<close>.
\<close>

definition chars_to_remove :: "nat list" where
  "chars_to_remove =
     [42, 47, 40, 41, 91, 93, 123, 125, 36, 37, 94, 64, 35, 43, 61, 124, 92, 126, 96,
      62, 60, 34, 38]"

definition removeIncompatibleCharacters :: "ustring \<Rightarrow> ustring" where
  "removeIncompatibleCharacters str =
     foldl (\<lambda>clean_str char. replaceAll [char] [] clean_str) str chars_to_remove"

section \<open>isomorphic-utils: splitTextByByteLength\<close>

text \<open>
  \<^verbatim>\<open>text.split(/(\s+)/)\<close>: the runs without white space and, since the group
  captures, the runs of white space between them, in order. The list starts and
  ends with a run without white space, which may be empty.
\<close>

lemma length_dropWhile_run:
  "dropWhile (\<lambda>c. \<not> P c) xs \<noteq> [] \<Longrightarrow>
   length (dropWhile P (dropWhile (\<lambda>c. \<not> P c) xs)) < length xs"
proof (induction xs)
  case Nil
  then show ?case by simp
next
  case (Cons x xs)
  show ?case
  proof (cases "P x")
    case True
    have "length (dropWhile P xs) \<le> length xs" by (rule length_dropWhile_le)
    then show ?thesis using True by simp
  next
    case False
    then show ?thesis using Cons by auto
  qed
qed

function split_whitespace :: "ustring \<Rightarrow> ustring list" where
  "split_whitespace text =
     (let word = takeWhile (\<lambda>c. \<not> whitespace c) text;
          rest = dropWhile (\<lambda>c. \<not> whitespace c) text
      in if rest = [] then [word]
         else word # takeWhile whitespace rest # split_whitespace (dropWhile whitespace rest))"
  by pat_completeness auto
termination
  by (relation "measure length") (auto simp: length_dropWhile_run)

declare split_whitespace.simps [simp del]

text \<open>
  The loop that cuts a word longer than the limit:
  \<^verbatim>\<open>for (let i = 0; i < wordBytes.length; i += byteLength) {
    const slice = wordBytes.slice(i, i + byteLength);
    chunks.push(new TextDecoder().decode(slice)); }\<close>
  With \<^verbatim>\<open>byteLength\<close> zero and bytes to cut the loop does not end: \<open>None\<close>.
\<close>

function byte_slices :: "nat \<Rightarrow> byte list \<Rightarrow> byte list list" where
  "byte_slices n bytes =
     (if n = 0 \<or> bytes = [] then [] else take n bytes # byte_slices n (drop n bytes))"
  by pat_completeness auto
termination
  by (relation "measure (\<lambda>(n, bytes). length bytes)") auto

declare byte_slices.simps [simp del]

definition force_split :: "nat \<Rightarrow> byte list \<Rightarrow> ustring list option" where
  "force_split byteLength wordBytes =
     (if byteLength = 0 \<and> wordBytes \<noteq> [] then None
      else Some (map TextDecoder_decode (byte_slices byteLength wordBytes)))"

text \<open>
  \<^verbatim>\<open>for (const word of words) {
    const potentialChunk = currentChunk + word;
    if (encoder.encode(potentialChunk).length <= byteLength) {
      currentChunk = potentialChunk;
    } else {
      if (currentChunk) { chunks.push(currentChunk.trim()); currentChunk = word; }
      else { (cut the word); currentChunk = ""; } } }\<close>
\<close>

fun split_loop ::
  "nat \<Rightarrow> ustring list \<Rightarrow> ustring list \<Rightarrow> ustring \<Rightarrow> (ustring list \<times> ustring) option" where
  "split_loop byteLength [] chunks currentChunk = Some (chunks, currentChunk)"
| "split_loop byteLength (word # words) chunks currentChunk =
     (let potentialChunk = currentChunk @ word in
      if length (TextEncoder_encode potentialChunk) \<le> byteLength
      then split_loop byteLength words chunks potentialChunk
      else if currentChunk \<noteq> []
      then split_loop byteLength words (chunks @ [trim currentChunk]) word
      else (case force_split byteLength (TextEncoder_encode word) of
              None \<Rightarrow> None
            | Some slices \<Rightarrow> split_loop byteLength words (chunks @ slices) []))"

definition splitTextByByteLength :: "ustring \<Rightarrow> nat \<Rightarrow> ustring list option" where
  "splitTextByByteLength text byteLength =
     (case split_loop byteLength (split_whitespace text) [] [] of
        None \<Rightarrow> None
      | Some (chunks, currentChunk) \<Rightarrow>
          Some (if trim currentChunk \<noteq> [] then chunks @ [trim currentChunk] else chunks))"

section \<open>Exceptions\<close>

text \<open>
  The exception classes of \<^verbatim>\<open>exceptions.ts\<close>, without their messages; \<open>Error\<close> is a
  plain \<^verbatim>\<open>Error\<close> with its message, \<open>SyntaxError\<close> the error of \<^verbatim>\<open>JSON.parse\<close>, and
  \<open>ErrorEvent\<close> the event object that a socket hands to its error handler.
\<close>

datatype error =
    SkewAdjustmentError
  | UnknownResponse
  | UnexpectedResponse
  | NoAudioReceived
  | WebSocketError
  | ValueError
  | SyntaxError
  | ErrorEvent
  | Error string

section \<open>Numbers\<close>

text \<open>
  A JavaScript number is an IEEE 754 double. A finite double is represented by the
  rational number that it denotes, and every arithmetic operation rounds its exact
  result to the nearest double, to the one with the even significand when two are
  equally near: \<open>fl\<close>. A double has a significand of 53 bits; \<open>bits n\<close> is the number
  of binary digits of \<open>n\<close>, and \<open>exponent y\<close>, for a positive \<open>y\<close>, is the integer \<open>e\<close>
  with \<open>2\<^sup>e \<le> y < 2\<^sup>e\<^sup>+\<^sup>1\<close>. The range of the exponent is not bounded here (the
  infinities and the subnormal numbers are not represented; the source's values are
  far from both), and neither is the sign of zero.
\<close>

function bits :: "nat \<Rightarrow> nat" where
  "bits n = (if n = 0 then 0 else Suc (bits (n div 2)))"
  by pat_completeness auto
termination
  by (relation "measure id") auto

declare bits.simps [simp del]

definition exponent :: "rat \<Rightarrow> int" where
  "exponent y =
     (if 1 \<le> y then int (bits (nat \<lfloor>y\<rfloor>)) - 1 else - int (bits (nat (\<lceil>1 / y\<rceil> - 1))))"

definition round_even :: "rat \<Rightarrow> int" where
  "round_even q =
     (if q - of_int \<lfloor>q\<rfloor> < 1 / 2 then \<lfloor>q\<rfloor>
      else if 1 / 2 < q - of_int \<lfloor>q\<rfloor> then \<lfloor>q\<rfloor> + 1
      else if even \<lfloor>q\<rfloor> then \<lfloor>q\<rfloor> else \<lfloor>q\<rfloor> + 1)"

definition fl :: "rat \<Rightarrow> rat" where
  "fl x =
     (if x = 0 then 0
      else of_int (round_even (x / 2 powi (exponent \<bar>x\<bar> - 52))) * 2 powi (exponent \<bar>x\<bar> - 52))"

text \<open>
  The operators \<^verbatim>\<open>+\<close>, \<^verbatim>\<open>-\<close>, \<^verbatim>\<open>*\<close> and \<^verbatim>\<open>/\<close>. The source divides by non-zero
  constants only; a division by zero is \<open>NaN\<close> here. \<open>js_rem\<close> is the operator \<^verbatim>\<open>%\<close>,
  whose result has the sign of the dividend; the remainder of two doubles is a double,
  so that nothing is rounded there.
\<close>

datatype jsnum = NaN | Num rat

fun js_add :: "jsnum \<Rightarrow> jsnum \<Rightarrow> jsnum" where
  "js_add (Num a) (Num b) = Num (fl (a + b))"
| "js_add _ _ = NaN"

fun js_sub :: "jsnum \<Rightarrow> jsnum \<Rightarrow> jsnum" where
  "js_sub (Num a) (Num b) = Num (fl (a - b))"
| "js_sub _ _ = NaN"

fun js_mul :: "jsnum \<Rightarrow> jsnum \<Rightarrow> jsnum" where
  "js_mul (Num a) (Num b) = Num (fl (a * b))"
| "js_mul _ _ = NaN"

fun js_div :: "jsnum \<Rightarrow> jsnum \<Rightarrow> jsnum" where
  "js_div (Num a) (Num b) = (if b = 0 then NaN else Num (fl (a / b)))"
| "js_div _ _ = NaN"

definition js_trunc :: "rat \<Rightarrow> int" where
  "js_trunc q = (if 0 \<le> q then \<lfloor>q\<rfloor> else \<lceil>q\<rceil>)"

fun js_rem :: "jsnum \<Rightarrow> jsnum \<Rightarrow> jsnum" where
  "js_rem (Num a) (Num b) = (if b = 0 then NaN else Num (a - b * of_int (js_trunc (a / b))))"
| "js_rem _ _ = NaN"

text \<open>The decimal digits of a natural number.\<close>

function decimal :: "nat \<Rightarrow> ustring" where
  "decimal n = (if n < 10 then [48 + n] else decimal (n div 10) @ [48 + n mod 10])"
  by pat_completeness auto
termination
  by (relation "measure id") auto

declare decimal.simps [simp del]

text \<open>
  \<^verbatim>\<open>x.toFixed(0)\<close>: the sign, then the digits of the integer nearest to the
  magnitude, the larger one of two that are equally near. (From \<open>10\<^sup>2\<^sup>1\<close> on
  JavaScript prints an exponent; the source's values are far below.)
\<close>

fun toFixed0 :: "jsnum \<Rightarrow> ustring" where
  "toFixed0 NaN = ascii ''NaN''"
| "toFixed0 (Num x) = (if x < 0 then [45] else []) @ decimal (nat \<lfloor>\<bar>x\<bar> + 1 / 2\<rfloor>)"

section \<open>isomorphic-drm\<close>

definition WIN_EPOCH :: jsnum where
  "WIN_EPOCH = Num 11644473600"

definition S_TO_NS :: jsnum where
  "S_TO_NS = Num 1000000000"

definition TRUSTED_CLIENT_TOKEN :: ustring where
  "TRUSTED_CLIENT_TOKEN = ascii ''6A5AA1D4EAFF4E9FB37E23D68491D6F4''"

text \<open>The class \<^verbatim>\<open>IsomorphicDRM\<close> has one static field, shared by all sessions.\<close>

record DRM =
  clockSkewSeconds :: jsnum

definition adjClockSkewSeconds :: "DRM \<Rightarrow> jsnum \<Rightarrow> DRM" where
  "adjClockSkewSeconds drm skewSeconds =
     drm\<lparr>clockSkewSeconds := js_add (clockSkewSeconds drm) skewSeconds\<rparr>"

text \<open>
  \<^verbatim>\<open>return Date.now() / 1e3 + _IsomorphicDRM.clockSkewSeconds;\<close>
  The clock \<^verbatim>\<open>Date.now()\<close>, in milliseconds, is the argument \<open>now\<close>.
\<close>

definition getUnixTimestamp :: "int \<Rightarrow> DRM \<Rightarrow> jsnum" where
  "getUnixTimestamp now drm = js_add (js_div (Num (of_int now)) (Num 1000)) (clockSkewSeconds drm)"

text \<open>
  \<^verbatim>\<open>static parseRfc2616Date(date) {
    try { return new Date(date).getTime() / 1e3; } catch (e) { return null; } }\<close>
  The date parser of the host is the argument \<open>Date_getTime\<close>: for a string
  \<^verbatim>\<open>new Date(date)\<close> does not throw, and \<^verbatim>\<open>getTime()\<close> of a date that could not be
  parsed is \<open>NaN\<close>. \<open>None\<close> stands for \<^verbatim>\<open>null\<close>.
\<close>

definition parseRfc2616Date :: "(ustring \<Rightarrow> jsnum) \<Rightarrow> ustring \<Rightarrow> jsnum option" where
  "parseRfc2616Date Date_getTime date = Some (js_div (Date_getTime date) (Num 1000))"

text \<open>
  The \<^verbatim>\<open>headers\<close> of a response: an object with a method \<^verbatim>\<open>get\<close>, which looks a
  name up without regard to case (the map is keyed by lower-case names), or a plain
  object. A response without \<^verbatim>\<open>headers\<close> is \<open>None\<close>.
\<close>

datatype response_headers =
    HeadersObject "ustring \<rightharpoonup> ustring"
  | PlainObject "ustring \<rightharpoonup> ustring"

text \<open>
  \<^verbatim>\<open>serverDate = response.headers.get("date")\<close>, or for a plain object
  \<^verbatim>\<open>serverDate = headers["date"] || headers["Date"]\<close>.
\<close>

fun serverDate :: "response_headers option \<Rightarrow> ustring option" where
  "serverDate None = None"
| "serverDate (Some (HeadersObject h)) = h (ascii ''date'')"
| "serverDate (Some (PlainObject h)) =
     (case h (ascii ''date'') of
        None \<Rightarrow> h (ascii ''Date'')
      | Some v \<Rightarrow> if v = [] then h (ascii ''Date'') else Some v)"

text \<open>
  \<^verbatim>\<open>if (!serverDate) throw new SkewAdjustmentError("No server date in headers.");
  const serverDateParsed = _IsomorphicDRM.parseRfc2616Date(serverDate);
  if (serverDateParsed === null)
    throw new SkewAdjustmentError(`Failed to parse server date: ${serverDate}`);
  const clientDate = _IsomorphicDRM.getUnixTimestamp();
  _IsomorphicDRM.adjClockSkewSeconds(serverDateParsed - clientDate);\<close>
\<close>

definition handleClientResponseError ::
  "(ustring \<Rightarrow> jsnum) \<Rightarrow> int \<Rightarrow> DRM \<Rightarrow> response_headers option \<Rightarrow> error + DRM" where
  "handleClientResponseError Date_getTime now drm response =
     (case serverDate response of
        None \<Rightarrow> Inl SkewAdjustmentError
      | Some date \<Rightarrow>
          if date = [] then Inl SkewAdjustmentError
          else (case parseRfc2616Date Date_getTime date of
                  None \<Rightarrow> Inl SkewAdjustmentError
                | Some serverDateParsed \<Rightarrow>
                    Inr (adjClockSkewSeconds drm
                          (js_sub serverDateParsed (getUnixTimestamp now drm)))))"

text \<open>
  \<^verbatim>\<open>let ticks = _IsomorphicDRM.getUnixTimestamp();
  ticks += WIN_EPOCH;
  ticks -= ticks % 300;
  ticks *= S_TO_NS / 100;
  const strToHash = `${ticks.toFixed(0)}${TRUSTED_CLIENT_TOKEN}`;\<close>
\<close>

definition ticks :: "jsnum \<Rightarrow> jsnum" where
  "ticks timestamp =
     js_mul (js_sub (js_add timestamp WIN_EPOCH) (js_rem (js_add timestamp WIN_EPOCH) (Num 300)))
       (js_div S_TO_NS (Num 100))"

definition strToHash :: "jsnum \<Rightarrow> ustring" where
  "strToHash timestamp = toFixed0 (ticks timestamp) @ TRUSTED_CLIENT_TOKEN"

text \<open>
  \<^verbatim>\<open>hashArray.map((b) => b.toString(16).padStart(2, "0")).join("").toUpperCase()\<close>:
  two hexadecimal digits for each byte, the letters in upper case.
\<close>

definition hex_digit :: "nat \<Rightarrow> nat" where
  "hex_digit d = (if d < 10 then 48 + d else 87 + d)"

definition hex_byte :: "byte \<Rightarrow> ustring" where
  "hex_byte b = [hex_digit (unat b div 16), hex_digit (unat b mod 16)]"

definition toUpperCase :: "ustring \<Rightarrow> ustring" where
  "toUpperCase s = map (\<lambda>c. if 97 \<le> c \<and> c \<le> 122 then c - 32 else c) s"

text \<open>
  \<^verbatim>\<open>generateSecMsGec\<close>. The digest \<^verbatim>\<open>crypto.subtle.digest("SHA-256", data)\<close> of the
  host is the argument \<open>digest\<close>, \<open>None\<close> when the host has no Web Crypto API.
\<close>

definition generateSecMsGec ::
  "(byte list \<Rightarrow> byte list) option \<Rightarrow> int \<Rightarrow> DRM \<Rightarrow> error + ustring" where
  "generateSecMsGec digest now drm =
     (case digest of
        None \<Rightarrow> Inl (Error ''Web Crypto API not available'')
      | Some sha256 \<Rightarrow>
          Inr (toUpperCase (concat (map hex_byte
                 (sha256 (TextEncoder_encode (strToHash (getUnixTimestamp now drm))))))))"

section \<open>isomorphic-communicate: frames\<close>

text \<open>
  The header lines of a frame:
  \<^verbatim>\<open>for (const line of headerLines) {
    const [key, value] = line.split(":", 2);
    if (key && value) { headers[key] = value.trim(); } }\<close>
\<close>

definition header_line :: "(ustring \<rightharpoonup> ustring) \<Rightarrow> ustring \<Rightarrow> (ustring \<rightharpoonup> ustring)" where
  "header_line headers line =
     (case take 2 (split (ascii '':'') line) of
        [key, val] \<Rightarrow> if key \<noteq> [] \<and> val \<noteq> [] then headers(key \<mapsto> trim val) else headers
      | _ \<Rightarrow> headers)"

definition header_lines :: "ustring \<Rightarrow> (ustring \<rightharpoonup> ustring)" where
  "header_lines headerString = foldl header_line Map.empty (split [13, 10] headerString)"

text \<open>
  \<^verbatim>\<open>s.substring(0, n)\<close> counts UTF-16 code units: a code point from \<open>2\<^sup>1\<^sup>6\<close> on has
  two of them, and the first alone is a high surrogate.
\<close>

fun substring0 :: "nat \<Rightarrow> ustring \<Rightarrow> ustring" where
  "substring0 n [] = []"
| "substring0 n (c # s) =
     (if n = 0 then []
      else if c < 65536 then c # substring0 (n - 1) s
      else if n = 1 then [55296 + (c - 65536) div 1024]
      else c # substring0 (n - 2) s)"

text \<open>
  \<^verbatim>\<open>function isomorphicGetHeadersAndDataFromText(message)\<close>: the header block ends
  at the first empty line; without one there are no headers and
  \<^verbatim>\<open>substring(0, headerEndIndex + 4)\<close> is \<^verbatim>\<open>substring(0, 3)\<close>. With one, the
  index counts the code units of the header block, and the four of the empty line
  follow.
\<close>

definition isomorphicGetHeadersAndDataFromText ::
  "byte list \<Rightarrow> (ustring \<rightharpoonup> ustring) \<times> byte list" where
  "isomorphicGetHeadersAndDataFromText message =
     (let messageString = TextDecoder_decode message;
          headerEndIndex = indexOf [13, 10, 13, 10] messageString;
          headers = (case headerEndIndex of
                       None \<Rightarrow> Map.empty
                     | Some i \<Rightarrow> header_lines (take i messageString));
          headerByteLength =
            length (TextEncoder_encode
              (case headerEndIndex of
                 None \<Rightarrow> substring0 3 messageString
               | Some i \<Rightarrow> take (i + 4) messageString))
      in (headers, drop headerByteLength message))"

text \<open>
  \<^verbatim>\<open>function isomorphicGetHeadersAndDataFromBinary(message)\<close>, behind its check of
  the length:
  \<^verbatim>\<open>const headerLength = message[0] << 8 | message[1];
  const headers = {};
  if (headerLength > 0 && headerLength + 2 <= message.length) {
    const headerBytes = message.slice(2, headerLength + 2); ... }
  return [headers, message.slice(headerLength + 2)];\<close>
\<close>

fun headerLength :: "byte list \<Rightarrow> nat" where
  "headerLength (b0 # b1 # rest) = unat (push_bit 8 (ucast b0) OR ucast b1 :: 32 word)"
| "headerLength _ = 0"

definition headers_and_data :: "byte list \<Rightarrow> (ustring \<rightharpoonup> ustring) \<times> byte list" where
  "headers_and_data message =
     (if 0 < headerLength message \<and> headerLength message + 2 \<le> length message
      then header_lines (TextDecoder_decode (take (headerLength message) (drop 2 message)))
      else Map.empty,
      drop (headerLength message + 2) message)"

definition isomorphicGetHeadersAndDataFromBinary ::
  "byte list \<Rightarrow> error + (ustring \<rightharpoonup> ustring) \<times> byte list" where
  "isomorphicGetHeadersAndDataFromBinary message =
     (if length message < 2 then Inl (Error ''Message too short to contain header length'')
      else Inr (headers_and_data message))"

section \<open>isomorphic-communicate: the session\<close>

record CommunicateState =
  partialText :: "byte list"
  offsetCompensation :: int
  lastDurationOffset :: int
  streamWasCalled :: bool

text \<open>
  A chunk of the stream is \<^verbatim>\<open>{ type: "audio", data }\<close> or
  \<^verbatim>\<open>{ type: "WordBoundary", offset, duration, text }\<close>; offsets and durations are
  counted in units of 100 nanoseconds.
\<close>

datatype TTSChunk =
    Audio "byte list"
  | WordBoundary (offset: int) (duration: int) (text': ustring)

text \<open>
  An entry of the list \<^verbatim>\<open>Metadata\<close> of a metadata frame, with the fields that
  \<^verbatim>\<open>parseMetadata\<close> reads: \<^verbatim>\<open>Type\<close>, \<^verbatim>\<open>Data.Offset\<close>, \<^verbatim>\<open>Data.Duration\<close> and
  \<^verbatim>\<open>Data.text.Text\<close>. The parser \<^verbatim>\<open>JSON.parse\<close> of the host is an argument of the
  model: it gives the list of the entries, or \<open>None\<close> where it throws.
\<close>

record metaObj =
  Type :: ustring
  Offset :: int
  Duration :: int
  Text :: ustring

type_synonym json_parser = "ustring \<Rightarrow> metaObj list option"

text \<open>
  The loop of \<^verbatim>\<open>parseMetadata\<close>:
  \<^verbatim>\<open>for (const metaObj of metadata["Metadata"]) {
    const metaType = metaObj["Type"];
    if (metaType === "WordBoundary") {
      const currentOffset = metaObj["Data"]["Offset"] + this.state.offsetCompensation;
      const currentDuration = metaObj["Data"]["Duration"];
      return { type: metaType, offset: currentOffset, duration: currentDuration,
               text: unescape(metaObj["Data"]["text"]["Text"]) }; }
    if (metaType === "SessionEnd") { continue; }
    throw new UnknownResponse(`Unknown metadata type: ${metaType}`); }
  throw new UnexpectedResponse("No WordBoundary metadata found");\<close>
\<close>

fun scanMetadata :: "CommunicateState \<Rightarrow> metaObj list \<Rightarrow> error + TTSChunk" where
  "scanMetadata state [] = Inl UnexpectedResponse"
| "scanMetadata state (metaObj # metadata) =
     (if Type metaObj = ascii ''WordBoundary''
      then Inr (WordBoundary (Offset metaObj + offsetCompensation state) (Duration metaObj)
                  (unescape (Text metaObj)))
      else if Type metaObj = ascii ''SessionEnd'' then scanMetadata state metadata
      else Inl UnknownResponse)"

definition parseMetadata :: "json_parser \<Rightarrow> CommunicateState \<Rightarrow> byte list \<Rightarrow> error + TTSChunk" where
  "parseMetadata JSON_parse state data =
     (case JSON_parse (TextDecoder_decode data) of
        None \<Rightarrow> Inl SyntaxError
      | Some metadata \<Rightarrow> scanMetadata state metadata)"

text \<open>
  What the handlers of the socket put into \<^verbatim>\<open>messageQueue\<close>: the string
  \<^verbatim>\<open>"close"\<close>, an error, or a chunk.
\<close>

datatype queued = Close | Failure error | Chunk TTSChunk

text \<open>
  \<^verbatim>\<open>processBinaryData\<close>:
  \<^verbatim>\<open>if (bufferData.length < 2) { messageQueue.push(new UnexpectedResponse(...)); }
  else {
    const [headers, audioData] = isomorphicGetHeadersAndDataFromBinary(bufferData);
    if (headers["Path"] !== "audio") { messageQueue.push(new UnexpectedResponse(...)); }
    else {
      const contentType = headers["Content-Type"];
      if (contentType !== "audio/mpeg") {
        if (audioData.length > 0) { messageQueue.push(new UnexpectedResponse(...)); }
      } else if (audioData.length === 0) { messageQueue.push(new UnexpectedResponse(...)); }
      else { messageQueue.push({ type: "audio", data: audioData }); } } }\<close>
\<close>

definition processBinaryData :: "queued list \<Rightarrow> byte list \<Rightarrow> queued list" where
  "processBinaryData messageQueue bufferData =
     (if length bufferData < 2 then messageQueue @ [Failure UnexpectedResponse]
      else
        (let headers = fst (headers_and_data bufferData);
             audioData = snd (headers_and_data bufferData)
         in if headers (ascii ''Path'') \<noteq> Some (ascii ''audio'')
            then messageQueue @ [Failure UnexpectedResponse]
            else if headers (ascii ''Content-Type'') \<noteq> Some (ascii ''audio/mpeg'')
            then (if 0 < length audioData then messageQueue @ [Failure UnexpectedResponse]
                  else messageQueue)
            else if length audioData = 0 then messageQueue @ [Failure UnexpectedResponse]
            else messageQueue @ [Chunk (Audio audioData)]))"

text \<open>
  A message of the socket: its data, a string, bytes (an \<^verbatim>\<open>ArrayBuffer\<close>, a
  \<^verbatim>\<open>Uint8Array\<close>, a \<^verbatim>\<open>Buffer\<close>, or a \<^verbatim>\<open>Blob\<close>, whose bytes are handled once they
  have been read) or anything else, and the flag \<^verbatim>\<open>isBinary\<close>, which may be absent.
\<close>

datatype ws_data = StringData ustring | BinaryData "byte list" | OtherData

datatype ws_message = WsMessage ws_data "bool option"

text \<open>
  The branch of \<^verbatim>\<open>handleMessage\<close> for a text frame:
  \<^verbatim>\<open>const [headers, parsedData] =
    isomorphicGetHeadersAndDataFromText(IsomorphicBuffer.from(data));
  const path = headers["Path"];
  if (path === "audio.metadata") {
    try {
      const parsedMetadata = this.parseMetadata(parsedData);
      this.state.lastDurationOffset = parsedMetadata.offset + parsedMetadata.duration;
      messageQueue.push(parsedMetadata);
    } catch (e) { messageQueue.push(e); }
  } else if (path === "turn.end") {
    this.state.offsetCompensation = this.state.lastDurationOffset;
    websocket.close();
  } else if (path !== "response" && path !== "turn.start") {
    messageQueue.push(new UnknownResponse(`Unknown path received: ${path}`)); }\<close>
\<close>

definition text_path :: "ustring \<Rightarrow> ustring option" where
  "text_path s = fst (isomorphicGetHeadersAndDataFromText (TextEncoder_encode s)) (ascii ''Path'')"

definition handleText ::
  "json_parser \<Rightarrow> CommunicateState \<times> queued list \<Rightarrow> ustring \<Rightarrow> CommunicateState \<times> queued list" where
  "handleText JSON_parse sq s =
     (let state = fst sq; messageQueue = snd sq;
          parsedData = snd (isomorphicGetHeadersAndDataFromText (TextEncoder_encode s));
          path = text_path s
      in if path = Some (ascii ''audio.metadata'') then
           (case parseMetadata JSON_parse state parsedData of
              Inr parsedMetadata \<Rightarrow>
                (state\<lparr>lastDurationOffset := offset parsedMetadata + duration parsedMetadata\<rparr>,
                 messageQueue @ [Chunk parsedMetadata])
            | Inl e \<Rightarrow> (state, messageQueue @ [Failure e]))
         else if path = Some (ascii ''turn.end'') then
           (state\<lparr>offsetCompensation := lastDurationOffset state\<rparr>, messageQueue)
         else if path = Some (ascii ''response'') \<or> path = Some (ascii ''turn.start'') then
           (state, messageQueue)
         else (state, messageQueue @ [Failure UnknownResponse]))"

text \<open>
  \<^verbatim>\<open>handleMessage\<close>:
  \<^verbatim>\<open>const data = message.data || message;
  const binary = isBinary ?? (data instanceof ArrayBuffer || data instanceof Uint8Array);
  if (!binary && typeof data === "string") { (the text frame) }
  else { (bytes go to processBinaryData, anything else pushes UnexpectedResponse) }\<close>
  An empty string is not \<^verbatim>\<open>message.data\<close> but the message object.
\<close>

fun handleMessage ::
  "json_parser \<Rightarrow> CommunicateState \<times> queued list \<Rightarrow> ws_message \<Rightarrow> CommunicateState \<times> queued list" where
  "handleMessage JSON_parse sq (WsMessage (BinaryData bufferData) isBinary) =
     (fst sq, processBinaryData (snd sq) bufferData)"
| "handleMessage JSON_parse sq (WsMessage OtherData isBinary) =
     (fst sq, snd sq @ [Failure UnexpectedResponse])"
| "handleMessage JSON_parse sq (WsMessage (StringData s) isBinary) =
     (if s = [] \<or> isBinary = Some True then (fst sq, snd sq @ [Failure UnexpectedResponse])
      else handleText JSON_parse sq s)"

text \<open>
  The events of an open socket. The handler of errors that pushes a
  \<^verbatim>\<open>WebSocketError\<close> is replaced, before the socket opens, by the one that rejects
  the promise of the opening, so an error of an open socket changes nothing; the
  closing pushes \<^verbatim>\<open>"close"\<close>.
\<close>

datatype ws_event = OnMessage ws_message | OnError | OnClose

fun on_event ::
  "json_parser \<Rightarrow> CommunicateState \<times> queued list \<Rightarrow> ws_event \<Rightarrow> CommunicateState \<times> queued list" where
  "on_event JSON_parse sq (OnMessage message) = handleMessage JSON_parse sq message"
| "on_event JSON_parse sq OnError = sq"
| "on_event JSON_parse sq OnClose = (fst sq, snd sq @ [Close])"

definition on_events ::
  "json_parser \<Rightarrow> CommunicateState \<times> queued list \<Rightarrow> ws_event list \<Rightarrow> CommunicateState \<times> queued list" where
  "on_events JSON_parse sq events = foldl (on_event JSON_parse) sq events"

text \<open>
  The loop of \<^verbatim>\<open>_stream\<close> that takes the queue in order:
  \<^verbatim>\<open>if (message === "close") {
    if (!audioWasReceived) { throw new NoAudioReceived("No audio was received."); }
    break;
  } else if (message instanceof Error) { throw message; }
  else { if (message.type === "audio") audioWasReceived = true; yield message; }\<close>
  With the queue empty the loop waits for the next event.
\<close>

datatype outcome = Returned | Threw error | Waiting

fun is_audio :: "TTSChunk \<Rightarrow> bool" where
  "is_audio (Audio d) = True"
| "is_audio (WordBoundary off dur txt) = False"

fun consume :: "bool \<Rightarrow> queued list \<Rightarrow> TTSChunk list \<times> outcome" where
  "consume audioWasReceived [] = ([], Waiting)"
| "consume audioWasReceived (Close # messageQueue) =
     ([], if audioWasReceived then Returned else Threw NoAudioReceived)"
| "consume audioWasReceived (Failure e # messageQueue) = ([], Threw e)"
| "consume audioWasReceived (Chunk message # messageQueue) =
     (message # fst (consume (audioWasReceived \<or> is_audio message) messageQueue),
      snd (consume (audioWasReceived \<or> is_audio message) messageQueue))"

text \<open>
  One run of \<^verbatim>\<open>_stream\<close>, for one chunk of text, given what happens outside: the
  result of \<^verbatim>\<open>generateSecMsGec\<close>, and the socket, which fails to open (the promise
  rejects with the event of the error) or opens and has the given events.
\<close>

datatype connection = Refused | Opened "ws_event list"

fun stream_chunk ::
  "json_parser \<Rightarrow> CommunicateState \<Rightarrow> error + ustring \<Rightarrow> connection
     \<Rightarrow> CommunicateState \<times> TTSChunk list \<times> outcome" where
  "stream_chunk JSON_parse state (Inl e) connection = (state, [], Threw e)"
| "stream_chunk JSON_parse state (Inr token) Refused = (state, [], Threw ErrorEvent)"
| "stream_chunk JSON_parse state (Inr token) (Opened events) =
     (fst (on_events JSON_parse (state, []) events),
      consume False (snd (on_events JSON_parse (state, []) events)))"

text \<open>
  The session: its state and the chunks of text still to be sent. The options of the
  constructor are taken as valid (\<^verbatim>\<open>TTSConfig\<close>, which rejects invalid ones, is not
  modelled).
  \<^verbatim>\<open>const processedText = escape(removeIncompatibleCharacters(text));
  const maxSize = 4096;
  this.texts = (function* () {
    for (const chunk of splitTextByByteLength(processedText, maxSize)) {
      yield new TextEncoder().encode(chunk); } })();\<close>
\<close>

record Communicate =
  state :: CommunicateState
  texts :: "byte list list"

definition new_Communicate :: "ustring \<Rightarrow> Communicate" where
  "new_Communicate text =
     \<lparr>state = \<lparr>partialText = [], offsetCompensation = 0, lastDurationOffset = 0,
                streamWasCalled = False\<rparr>,
      texts = (case splitTextByByteLength (escape (removeIncompatibleCharacters text)) 4096 of
                 None \<Rightarrow> []
               | Some chunks \<Rightarrow> map TextEncoder_encode chunks)\<rparr>"

text \<open>
  \<^verbatim>\<open>async *stream() {
    if (this.state.streamWasCalled) { throw new Error("stream can only be called once."); }
    this.state.streamWasCalled = true;
    for (const partialText of this.texts) {
      this.state.partialText = partialText;
      for await (const message of this._stream()) { yield message; } } }\<close>
  \<open>stream\<close> is the run of the body, which starts when the first chunk is asked
  for; the argument \<open>outside\<close> gives, for each chunk of text in turn, the token and
  the connection. A run that throws ends the generator \<^verbatim>\<open>texts\<close>.
\<close>

fun stream_loop ::
  "json_parser \<Rightarrow> Communicate \<Rightarrow> ((error + ustring) \<times> connection) list
     \<Rightarrow> Communicate \<times> TTSChunk list \<times> outcome" where
  "stream_loop JSON_parse c [] = (c, [], if texts c = [] then Returned else Waiting)"
| "stream_loop JSON_parse c ((token, connection) # outside) =
     (case texts c of
        [] \<Rightarrow> (c, [], Returned)
      | chunk # remaining \<Rightarrow>
          (case stream_chunk JSON_parse ((state c)\<lparr>partialText := chunk\<rparr>) token connection of
             (state', messages, Returned) \<Rightarrow>
               (case stream_loop JSON_parse \<lparr>state = state', texts = remaining\<rparr> outside of
                  (c', messages', result) \<Rightarrow> (c', messages @ messages', result))
           | (state', messages, Threw e) \<Rightarrow> (\<lparr>state = state', texts = []\<rparr>, messages, Threw e)
           | (state', messages, Waiting) \<Rightarrow>
               (\<lparr>state = state', texts = remaining\<rparr>, messages, Waiting)))"

definition stream ::
  "json_parser \<Rightarrow> Communicate \<Rightarrow> ((error + ustring) \<times> connection) list
     \<Rightarrow> Communicate \<times> TTSChunk list \<times> outcome" where
  "stream JSON_parse c outside =
     (if streamWasCalled (state c)
      then (c, [], Threw (Error ''stream can only be called once.''))
      else stream_loop JSON_parse (c\<lparr>state := (state c)\<lparr>streamWasCalled := True\<rparr>\<rparr>) outside)"

section \<open>submaker\<close>

record Cue =
  index :: nat
  start :: rat
  end' :: rat
  content :: ustring

text \<open>
  \<^verbatim>\<open>feed(msg) {
    if (msg.type !== "WordBoundary" || msg.offset === void 0 || msg.duration === void 0
        || msg.text === void 0) { throw new ValueError(...); }
    const start = msg.offset / 1e7;
    const end = (msg.offset + msg.duration) / 1e7;
    this.cues.push({ index: this.cues.length + 1, start, end, content: msg.text }); }\<close>
  A chunk of type \<^verbatim>\<open>WordBoundary\<close> has its three fields.
\<close>

fun feed :: "Cue list \<Rightarrow> TTSChunk \<Rightarrow> error + Cue list" where
  "feed cues (Audio d) = Inl ValueError"
| "feed cues (WordBoundary off dur txt) =
     Inr (cues @ [\<lparr>index = length cues + 1, start = of_int off / 10000000,
                   end' = of_int (off + dur) / 10000000, content = txt\<rparr>])"

text \<open>
  The loop of \<^verbatim>\<open>mergeCues\<close>:
  \<^verbatim>\<open>for (const cue of this.cues.slice(1)) {
    if (currentCue.content.split(" ").length < words) {
      currentCue = { ...currentCue, end: cue.end,
                     content: `${currentCue.content} ${cue.content}` };
    } else { newCues.push(currentCue); currentCue = cue; } }
  newCues.push(currentCue);\<close>
\<close>

fun merge_loop :: "int \<Rightarrow> Cue list \<Rightarrow> Cue \<Rightarrow> Cue list \<Rightarrow> Cue list" where
  "merge_loop words newCues currentCue [] = newCues @ [currentCue]"
| "merge_loop words newCues currentCue (cue # cues) =
     (if int (length (split [32] (content currentCue))) < words
      then merge_loop words newCues
             (currentCue\<lparr>end' := end' cue, content := content currentCue @ [32] @ content cue\<rparr>)
             cues
      else merge_loop words (newCues @ [currentCue]) cue cues)"

text \<open>
  \<^verbatim>\<open>mergeCues(words) {
    if (words <= 0) { throw new ValueError(...); }
    if (this.cues.length === 0) { return; }
    ...
    this.cues = newCues.map((cue, i) => ({ ...cue, index: i + 1 })); }\<close>
\<close>

definition mergeCues :: "int \<Rightarrow> Cue list \<Rightarrow> error + Cue list" where
  "mergeCues words cues =
     (if words \<le> 0 then Inl ValueError
      else (case cues of
              [] \<Rightarrow> Inr []
            | first # others \<Rightarrow>
                Inr (map (\<lambda>(i, cue). cue\<lparr>index := i + 1\<rparr>)
                      (enumerate 0 (merge_loop words [] first others)))))"

section \<open>Notions used in the statements and proofs\<close>

text \<open>The entity that \<open>escape\<close> writes for one code point.\<close>

definition entity :: "nat \<Rightarrow> ustring" where
  "entity c =
     (if c = 38 then ascii ''&amp;''
      else if c = 60 then ascii ''&lt;''
      else if c = 62 then ascii ''&gt;''
      else if c = 34 then ascii ''&quot;''
      else if c = 39 then ascii ''&apos;''
      else [c])"

text \<open>
  A text in which the code points of \<open>X\<close> stand for themselves and every other
  code point is written as its entity: what \<open>unescape\<close> has made of an escaped text
  once the entities of \<open>X\<close> are replaced.
\<close>

definition partial_entity :: "nat set \<Rightarrow> nat \<Rightarrow> ustring" where
  "partial_entity X c = (if c \<in> X then [c] else entity c)"

text \<open>Feeding a list of chunks to a \<open>SubMaker\<close>, one call of \<open>feed\<close> for each.\<close>

fun feed_all :: "Cue list \<Rightarrow> TTSChunk list \<Rightarrow> error + Cue list" where
  "feed_all cues [] = Inr cues"
| "feed_all cues (msg # msgs) =
     (case feed cues msg of Inl e \<Rightarrow> Inl e | Inr cues' \<Rightarrow> feed_all cues' msgs)"

definition four_words :: "TTSChunk list" where
  "four_words =
     [WordBoundary 0 3000000 (ascii ''The''), WordBoundary 3000000 3000000 (ascii ''quick''),
      WordBoundary 6000000 3000000 (ascii ''brown''), WordBoundary 9000000 3000000 (ascii ''fox'')]"

text \<open>
  A parser that reads one payload, written \<open>M\<close> here: a list of three entries, a
  \<^verbatim>\<open>SessionEnd\<close>, a \<^verbatim>\<open>WordBoundary\<close> and one of another type.
\<close>

definition sample_parser :: json_parser where
  "sample_parser s =
     (if s = ascii ''M'' then
        Some [\<lparr>Type = ascii ''SessionEnd'', Offset = 0, Duration = 0, Text = []\<rparr>,
              \<lparr>Type = ascii ''WordBoundary'', Offset = 500, Duration = 200,
                Text = ascii ''a&amp;b''\<rparr>,
              \<lparr>Type = ascii ''Other'', Offset = 0, Duration = 0, Text = []\<rparr>]
      else None)"

text \<open>
  Two binary frames with the path \<^verbatim>\<open>audio\<close>: one with another content type than
  \<^verbatim>\<open>audio/mpeg\<close> and no payload, one with \<^verbatim>\<open>audio/mpeg\<close> and three bytes of payload.
\<close>

definition frame_other_type_empty :: "byte list" where
  "frame_other_type_empty =
     [0, 32] @ map of_char ''Path:audio'' @ [13, 10] @ map of_char ''Content-Type:audio/x''"

definition frame_mpeg :: "byte list" where
  "frame_mpeg =
     [0, 35] @ map of_char ''Content-Type:audio/mpeg'' @ [13, 10] @ map of_char ''Path:audio''
       @ [255, 251, 144]"

text \<open>A host whose \<^verbatim>\<open>Date\<close> can parse one date, and no other string.\<close>

definition sample_getTime :: "ustring \<Rightarrow> jsnum" where
  "sample_getTime date =
     (if date = ascii ''Thu, 01 Jan 2026 00:00:00 GMT'' then Num 1767225600000 else NaN)"

text \<open>
  The \<^verbatim>\<open>WordBoundary\<close> chunks of a queue, in order, and the end (offset plus
  duration) of the last of them, or \<open>ldo\<close> when there is none.
\<close>

fun boundaries :: "queued list \<Rightarrow> TTSChunk list" where
  "boundaries [] = []"
| "boundaries (Chunk (WordBoundary off dur txt) # q) = WordBoundary off dur txt # boundaries q"
| "boundaries (x # q) = boundaries q"

definition last_end :: "int \<Rightarrow> queued list \<Rightarrow> int" where
  "last_end ldo q =
     (case rev (boundaries q) of [] \<Rightarrow> ldo | b # bs \<Rightarrow> offset b + duration b)"

text \<open>A parser all of whose entries have offsets and durations that are not negative.\<close>

definition nonnegative :: "json_parser \<Rightarrow> bool" where
  "nonnegative JSON_parse =
     (\<forall>s metadata. JSON_parse s = Some metadata \<longrightarrow>
        list_all (\<lambda>m. 0 \<le> Offset m \<and> 0 \<le> Duration m) metadata)"

text \<open>One event: what it appends to the queue and how it changes the two offsets.\<close>

definition step_ok ::
  "json_parser \<Rightarrow> CommunicateState \<times> queued list \<Rightarrow> CommunicateState \<times> queued list \<Rightarrow> bool" where
  "step_ok P sq sq' =
     (\<exists>new. snd sq' = snd sq @ new \<and>
        lastDurationOffset (fst sq') = last_end (lastDurationOffset (fst sq)) new \<and>
        (nonnegative P \<longrightarrow> offsetCompensation (fst sq) \<le> lastDurationOffset (fst sq) \<longrightarrow>
           offsetCompensation (fst sq) \<le> offsetCompensation (fst sq') \<and>
           offsetCompensation (fst sq') \<le> lastDurationOffset (fst sq') \<and>
           (\<forall>b \<in> set (boundaries new). offsetCompensation (fst sq) \<le> offset b)))"

text \<open>
  Two text frames: a metadata frame with the payload \<open>M\<close> of \<open>sample_parser\<close>, and
  a frame with the path \<^verbatim>\<open>turn.end\<close>.
\<close>

definition metadata_frame :: ustring where
  "metadata_frame = ascii ''Path:audio.metadata'' @ [13, 10, 13, 10] @ ascii ''M''"

definition turn_end_frame :: ustring where
  "turn_end_frame = ascii ''Path:turn.end'' @ [13, 10, 13, 10]"

text \<open>
  The 300-second bucket of a time \<open>t\<close>, in seconds since the Unix epoch, counted from
  the epoch of 1601; and the number that a list of decimal digits stands for.
\<close>

definition bucket :: "rat \<Rightarrow> int" where
  "bucket t = \<lfloor>(t + 11644473600) / 300\<rfloor>"

definition undecimal :: "ustring \<Rightarrow> nat" where
  "undecimal s = foldl (\<lambda>acc c. 10 * acc + (c - 48)) 0 s"

text \<open>
  The chunks reproduce the text, white space apart: they contain, in order, the
  code points of the text that are not white space, and no others.
\<close>

definition reproduces :: "ustring \<Rightarrow> ustring list \<Rightarrow> bool" where
  "reproduces text chunks =
     (filter (\<lambda>c. \<not> whitespace c) (concat chunks) = filter (\<lambda>c. \<not> whitespace c) text)"

text \<open>
  Upper-case hexadecimal: two digits of \<^verbatim>\<open>0123456789ABCDEF\<close> for each byte.
\<close>

definition upper_hex :: "byte list \<Rightarrow> ustring" where
  "upper_hex bytes =
     concat (map (\<lambda>b. [ascii ''0123456789ABCDEF'' ! (unat b div 16),
                         ascii ''0123456789ABCDEF'' ! (unat b mod 16)]) bytes)"

text \<open>
  The digest of a host that has the Web Crypto API: SHA-256 as in FIPS 180-4, on
  words of 32 bits written as natural numbers below \<open>2\<^sup>3\<^sup>2\<close>. \<open>sha_pad\<close> appends the
  bit 1, zeros and the length in bits, \<open>sha_expand\<close> is the message schedule of a
  block, \<open>sha_rounds\<close> the 64 rounds of the compression.
\<close>

definition sha_add :: "nat \<Rightarrow> nat \<Rightarrow> nat" where
  "sha_add x y = (x + y) mod 4294967296"

definition sha_rotr :: "nat \<Rightarrow> nat \<Rightarrow> nat" where
  "sha_rotr n x = x div 2 ^ n + (x mod 2 ^ n) * 2 ^ (32 - n)"

definition sha_Ch :: "nat \<Rightarrow> nat \<Rightarrow> nat \<Rightarrow> nat" where
  "sha_Ch x y z = (x AND y) XOR ((4294967295 - x) AND z)"

definition sha_Maj :: "nat \<Rightarrow> nat \<Rightarrow> nat \<Rightarrow> nat" where
  "sha_Maj x y z = (x AND y) XOR (x AND z) XOR (y AND z)"

definition sha_Sigma0 :: "nat \<Rightarrow> nat" where
  "sha_Sigma0 x = sha_rotr 2 x XOR sha_rotr 13 x XOR sha_rotr 22 x"

definition sha_Sigma1 :: "nat \<Rightarrow> nat" where
  "sha_Sigma1 x = sha_rotr 6 x XOR sha_rotr 11 x XOR sha_rotr 25 x"

definition sha_sigma0 :: "nat \<Rightarrow> nat" where
  "sha_sigma0 x = sha_rotr 7 x XOR sha_rotr 18 x XOR x div 2 ^ 3"

definition sha_sigma1 :: "nat \<Rightarrow> nat" where
  "sha_sigma1 x = sha_rotr 17 x XOR sha_rotr 19 x XOR x div 2 ^ 10"

definition sha_K :: "nat list" where
  "sha_K =
     [1116352408, 1899447441, 3049323471, 3921009573, 961987163, 1508970993,
      2453635748, 2870763221, 3624381080, 310598401, 607225278, 1426881987,
      1925078388, 2162078206, 2614888103, 3248222580, 3835390401, 4022224774,
      264347078, 604807628, 770255983, 1249150122, 1555081692, 1996064986,
      2554220882, 2821834349, 2952996808, 3210313671, 3336571891, 3584528711,
      113926993, 338241895, 666307205, 773529912, 1294757372, 1396182291,
      1695183700, 1986661051, 2177026350, 2456956037, 2730485921, 2820302411,
      3259730800, 3345764771, 3516065817, 3600352804, 4094571909, 275423344,
      430227734, 506948616, 659060556, 883997877, 958139571, 1322822218,
      1537002063, 1747873779, 1955562222, 2024104815, 2227730452, 2361852424,
      2428436474, 2756734187, 3204031479, 3329325298]"

definition sha_H0 :: "nat list" where
  "sha_H0 =
     [1779033703, 3144134277, 1013904242, 2773480762,
      1359893119, 2600822924, 528734635, 1541459225]"

fun sha_be32 :: "nat list \<Rightarrow> nat list" where
  "sha_be32 (a # b # c # d # rest) = (a * 16777216 + b * 65536 + c * 256 + d) # sha_be32 rest"
| "sha_be32 _ = []"

fun sha_expand :: "nat list \<Rightarrow> nat list \<Rightarrow> nat list" where
  "sha_expand (k # ks)
     (w0 # w1 # w2 # w3 # w4 # w5 # w6 # w7 # w8 # w9 # w10 # w11 # w12 # w13 # w14 # w15 # rest) =
     w0 # sha_expand ks
            [w1, w2, w3, w4, w5, w6, w7, w8, w9, w10, w11, w12, w13, w14, w15,
             sha_add (sha_add (sha_add (sha_sigma1 w14) w9) (sha_sigma0 w1)) w0]"
| "sha_expand _ _ = []"

definition sha_T1 :: "nat \<Rightarrow> nat \<Rightarrow> nat \<Rightarrow> nat \<Rightarrow> nat \<Rightarrow> nat \<Rightarrow> nat" where
  "sha_T1 e f g h k w = sha_add (sha_add (sha_add (sha_add h (sha_Sigma1 e)) (sha_Ch e f g)) k) w"

definition sha_T2 :: "nat \<Rightarrow> nat \<Rightarrow> nat \<Rightarrow> nat" where
  "sha_T2 a b c = sha_add (sha_Sigma0 a) (sha_Maj a b c)"

fun sha_rounds :: "nat list \<Rightarrow> nat list \<Rightarrow> nat list \<Rightarrow> nat list" where
  "sha_rounds (k # ks) (w # ws) [a, b, c, d, e, f, g, h] =
     sha_rounds ks ws
       [sha_add (sha_T1 e f g h k w) (sha_T2 a b c), a, b, c,
        sha_add d (sha_T1 e f g h k w), e, f, g]"
| "sha_rounds _ _ s = s"

definition sha_compress :: "nat list \<Rightarrow> nat list \<Rightarrow> nat list" where
  "sha_compress h block = map2 sha_add h (sha_rounds sha_K (sha_expand sha_K (sha_be32 block)) h)"

function sha_blocks :: "nat list \<Rightarrow> nat list \<Rightarrow> nat list" where
  "sha_blocks h m =
     (if length m < 64 then h else sha_blocks (sha_compress h (take 64 m)) (drop 64 m))"
  by pat_completeness auto
termination
  by (relation "measure (\<lambda>(h, m). length m)") auto

declare sha_blocks.simps [simp del]

definition sha_be_bytes4 :: "nat \<Rightarrow> nat list" where
  "sha_be_bytes4 w = [w div 16777216 mod 256, w div 65536 mod 256, w div 256 mod 256, w mod 256]"

definition sha_be_bytes8 :: "nat \<Rightarrow> nat list" where
  "sha_be_bytes8 n = sha_be_bytes4 (n div 4294967296) @ sha_be_bytes4 n"

definition sha_pad :: "nat list \<Rightarrow> nat list" where
  "sha_pad m =
     m @ [128] @ replicate ((119 - length m mod 64) mod 64) 0 @ sha_be_bytes8 (8 * length m)"

definition sha256 :: "byte list \<Rightarrow> byte list" where
  "sha256 m = map of_nat (concat (map sha_be_bytes4 (sha_blocks sha_H0 (sha_pad (map unat m)))))"

section \<open>Properties of escape and unescape\<close>

lemma replaceAll_single:
  "replaceAll [p] rep s = concat (map (\<lambda>c. if c = p then rep else [c]) s)"
  by (induction s) auto

lemma replaceAll_single_append:
  "replaceAll [p] rep (xs @ ys) = replaceAll [p] rep xs @ replaceAll [p] rep ys"
  by (simp add: replaceAll_single)

lemma escape_Cons: "escape (c # s) = entity c @ escape s"
  by (simp add: escape_def entity_def ascii_def replaceAll_single_append)

lemma escape_entities: "escape s = concat (map entity s)"
  by (induction s) (simp_all add: escape_Cons, simp add: escape_def)

text \<open>
  One replacement of \<open>unescape\<close>. No ampersand stands for itself yet, so every
  ampersand of the text starts an entity, and the pattern matches exactly the
  entities of \<open>k\<close>.
\<close>

lemma replaceAll_entity_stage:
  assumes k: "k \<in> {34, 39, 60, 62, 38}" and X: "38 \<notin> X"
  shows "replaceAll (entity k) [k] (concat (map (partial_entity X) s)) =
         concat (map (partial_entity (insert k X)) s)"
proof (induction s)
  case Nil
  show ?case by simp
next
  case (Cons c s)
  show ?case
  proof (cases "c \<in> X")
    case True
    then have "c \<noteq> 38" using X by auto
    then show ?thesis using True Cons k
      by (auto simp: partial_entity_def entity_def ascii_def)
  next
    case False
    then show ?thesis using Cons k
      by (auto simp: partial_entity_def entity_def ascii_def)
  qed
qed

lemma partial_entity_empty: "partial_entity {} = entity"
  by (rule ext) (simp add: partial_entity_def)

lemma partial_entity_all: "concat (map (partial_entity {38, 62, 60, 39, 34}) s) = s"
  by (induction s) (auto simp: partial_entity_def entity_def)

text \<open>
  Claim C10. For every string \<open>s\<close>, \<open>unescape (escape s) = s\<close>: the escaping of the
  text of an SSML request (of \<^verbatim>\<open>&\<close>, \<^verbatim>\<open><\<close>, \<^verbatim>\<open>>\<close>, the double and the single quote)
  is undone by the unescaping that \<open>parseMetadata\<close> applies to the text of a word.
\<close>

theorem unescape_escape: "unescape (escape s) = s"
proof -
  let ?t = "\<lambda>X. concat (map (partial_entity X) s)"
  have "escape s = ?t {}"
    by (simp add: escape_entities partial_entity_empty)
  moreover have "replaceAll (ascii ''&quot;'') [34] (?t {}) = ?t {34}"
    using replaceAll_entity_stage [of 34 "{}" s] by (simp add: entity_def)
  moreover have "replaceAll (ascii ''&apos;'') [39] (?t {34}) = ?t {39, 34}"
    using replaceAll_entity_stage [of 39 "{34}" s] by (simp add: entity_def)
  moreover have "replaceAll (ascii ''&lt;'') [60] (?t {39, 34}) = ?t {60, 39, 34}"
    using replaceAll_entity_stage [of 60 "{39, 34}" s] by (simp add: entity_def)
  moreover have "replaceAll (ascii ''&gt;'') [62] (?t {60, 39, 34}) = ?t {62, 60, 39, 34}"
    using replaceAll_entity_stage [of 62 "{60, 39, 34}" s] by (simp add: entity_def)
  moreover have "replaceAll (ascii ''&amp;'') [38] (?t {62, 60, 39, 34}) = ?t {38, 62, 60, 39, 34}"
    using replaceAll_entity_stage [of 38 "{62, 60, 39, 34}" s] by (simp add: entity_def)
  ultimately show ?thesis
    by (simp only: unescape_def partial_entity_all)
qed

section \<open>Properties of the encoder\<close>

lemma encode_ascii:
  "list_all (\<lambda>c. c < 128) s \<Longrightarrow> TextEncoder_encode s = map word_of_nat s"
  by (induction s) (simp_all add: TextEncoder_encode_def encode_code_point_def)

section \<open>Properties of the rounding\<close>

lemma bits_bounds: "0 < n \<Longrightarrow> 2 ^ (bits n - 1) \<le> n \<and> n < 2 ^ bits n"
proof (induction n rule: bits.induct)
  case (1 n)
  show ?case
  proof (cases "n div 2 = 0")
    case True
    then have "n = 1" using 1(2) by linarith
    then show ?thesis by (simp add: bits.simps [of "Suc 0"] bits.simps [of 0])
  next
    case False
    then have ih: "2 ^ (bits (n div 2) - 1) \<le> n div 2" "n div 2 < 2 ^ bits (n div 2)"
      using 1 by simp_all
    have b: "bits n = Suc (bits (n div 2))" using 1(2) by (subst bits.simps) simp
    have pos: "0 < bits (n div 2)" using False by (subst bits.simps) simp
    then have "(2::nat) ^ (bits n - 1) = 2 * 2 ^ (bits (n div 2) - 1)"
      using b by (cases "bits (n div 2)") simp_all
    then have "2 ^ (bits n - 1) \<le> n" using ih(1) by linarith
    moreover have "n < 2 ^ bits n" using ih(2) b by simp
    ultimately show ?thesis by simp
  qed
qed

lemma bits_pos: "0 < n \<Longrightarrow> 0 < bits n"
  by (subst bits.simps) simp

lemma exponent_bounds:
  assumes "0 < y"
  shows "2 powi exponent y \<le> y \<and> y < 2 powi (exponent y + 1)"
proof (cases "1 \<le> y")
  case True
  define n where "n = nat \<lfloor>y\<rfloor>"
  have n: "0 < n" "of_nat n \<le> y" "y < of_nat n + 1"
    using True by (simp_all add: n_def) linarith+
  have e: "exponent y = int (bits n) - 1" using True by (simp add: exponent_def n_def)
  have b: "0 < bits n" using n(1) by (rule bits_pos)
  from bits_bounds [OF n(1)] have lo: "2 ^ (bits n - 1) \<le> n" and hi: "n + 1 \<le> 2 ^ bits n" by simp_all
  have "(2::rat) powi (int (bits n) - 1) = 2 ^ (bits n - 1)"
    using b by (simp add: power_int_def nat_diff_distrib)
  also have "\<dots> \<le> of_nat n" using lo by (metis of_nat_le_iff of_nat_numeral of_nat_power)
  finally have 1: "2 powi exponent y \<le> y" using n(2) e by simp
  have "y < of_nat (n + 1)" using n(3) by simp
  also have "\<dots> \<le> of_nat (2 ^ bits n)" using hi by (simp only: of_nat_le_iff)
  also have "\<dots> = 2 powi (exponent y + 1)" by (simp add: e power_int_def)
  finally show ?thesis using 1 by simp
next
  case False
  define z where "z = 1 / y"
  define n where "n = nat (\<lceil>z\<rceil> - 1)"
  have z: "1 < z" using False assms by (simp add: z_def)
  then have c: "2 \<le> \<lceil>z\<rceil>" by linarith
  have n: "0 < n" "of_nat n < z" "z \<le> of_nat n + 1"
    using c by (simp_all add: n_def) linarith+
  have e: "exponent y = - int (bits n)" using False by (simp add: exponent_def n_def z_def)
  have b: "0 < bits n" using n(1) by (rule bits_pos)
  from bits_bounds [OF n(1)] have lo: "2 ^ (bits n - 1) \<le> n" and hi: "n + 1 \<le> 2 ^ bits n" by simp_all
  have "z \<le> of_nat (n + 1)" using n(3) by simp
  also have "\<dots> \<le> of_nat (2 ^ bits n)" using hi by (simp only: of_nat_le_iff)
  finally have "z \<le> 2 ^ bits n" by simp
  then have "1 / 2 ^ bits n \<le> y" using assms by (simp add: z_def field_simps)
  then have 1: "2 powi exponent y \<le> y" using b by (simp add: e power_int_def field_simps)
  have "(2::rat) ^ (bits n - 1) \<le> of_nat n" using lo by (metis of_nat_le_iff of_nat_numeral of_nat_power)
  then have "2 ^ (bits n - 1) < z" using n(2) by linarith
  then have "y < 1 / 2 ^ (bits n - 1)" using assms by (simp add: z_def field_simps)
  moreover have "(2::rat) powi (exponent y + 1) = 1 / 2 ^ (bits n - 1)"
    using b by (cases "bits n") (simp_all add: e power_int_def field_simps)
  ultimately show ?thesis using 1 by simp
qed

lemma exponent_eq:
  assumes "2 powi e \<le> y" "y < 2 powi (e + 1)"
  shows "exponent y = e"
proof -
  have "(0::rat) < 2 powi e" by simp
  then have "0 < y" using assms(1) by linarith
  note b = exponent_bounds [OF this]
  have 1: "(2::rat) powi e < 2 powi (exponent y + 1)" using assms(1) b by simp
  have "e < exponent y + 1"
  proof (rule ccontr)
    assume "\<not> e < exponent y + 1"
    then have "(2::rat) powi (exponent y + 1) \<le> 2 powi e"
      by (intro power_int_increasing) simp_all
    then show False using 1 by simp
  qed
  moreover have 2: "(2::rat) powi exponent y < 2 powi (e + 1)" using assms(2) b by simp
  have "exponent y < e + 1"
  proof (rule ccontr)
    assume "\<not> exponent y < e + 1"
    then have "(2::rat) powi (e + 1) \<le> 2 powi exponent y"
      by (intro power_int_increasing) simp_all
    then show False using 2 by simp
  qed
  ultimately show ?thesis by simp
qed

lemma fl_unfold:
  assumes "2 powi e \<le> \<bar>x\<bar>" "\<bar>x\<bar> < 2 powi (e + 1)"
  shows "fl x = of_int (round_even (x / 2 powi (e - 52))) * 2 powi (e - 52)"
proof -
  have "(0::rat) < 2 powi e" by simp
  then have "0 < \<bar>x\<bar>" using assms(1) by linarith
  then have "x \<noteq> 0" by simp
  then show ?thesis by (simp add: fl_def exponent_eq [OF assms])
qed

lemma round_even_of_int: "round_even (of_int n) = n"
  by (simp add: round_even_def)

lemma fl_dyadic:
  assumes "\<bar>m\<bar> < 2 ^ 53"
  shows "fl (of_int m * 2 powi k) = of_int m * 2 powi k"
proof (cases "m = 0")
  case True
  then show ?thesis by (simp add: fl_def)
next
  case False
  define n where "n = nat \<bar>m\<bar>"
  have n: "0 < n" "int n = \<bar>m\<bar>" using False by (simp_all add: n_def)
  define b where "b = bits n"
  from bits_bounds [OF n(1)] have lo: "2 ^ (b - 1) \<le> n" and hi: "n < 2 ^ b" by (simp_all add: b_def)
  have bpos: "0 < b" unfolding b_def using n(1) by (rule bits_pos)
  have "n < 2 ^ 53" using assms by (simp add: n_def nat_less_iff)
  then have "(2::nat) ^ (b - 1) < 2 ^ 53" using lo by linarith
  then have "b - 1 < 53" using power_less_imp_less_exp [of 2 "b - 1" 53] by simp
  then have b53: "b \<le> 53" by simp
  have am: "\<bar>of_int m :: rat\<bar> = of_nat n" using n(2) by (metis of_int_abs of_int_of_nat_eq)
  have "(2::rat) ^ (b - 1) \<le> of_nat n" using lo by (metis of_nat_le_iff of_nat_numeral of_nat_power)
  then have "(2::rat) powi (int b - 1) \<le> of_nat n" using bpos by (simp add: power_int_def nat_diff_distrib)
  then have "(2::rat) powi (int b - 1) * 2 powi k \<le> of_nat n * 2 powi k"
    by (simp add: mult_right_mono)
  then have 1: "2 powi (int b - 1 + k) \<le> \<bar>of_int m * 2 powi k :: rat\<bar>"
    by (simp add: power_int_add abs_mult am)
  have "(of_nat n :: rat) < 2 ^ b" using hi by (metis of_nat_less_iff of_nat_numeral of_nat_power)
  then have "(of_nat n :: rat) * 2 powi k < 2 powi (int b) * 2 powi k"
    by (simp add: mult_strict_right_mono)
  then have 2: "\<bar>of_int m * 2 powi k :: rat\<bar> < 2 powi (int b - 1 + k + 1)"
    by (simp add: power_int_add abs_mult am)
  have "(of_int m :: rat) * 2 powi k / 2 powi (int b - 1 + k - 52) = of_int m * 2 powi (53 - int b)"
    by (simp add: power_int_diff power_int_add field_simps)
  also have "\<dots> = of_int (m * 2 ^ (53 - b))"
    using b53 by (simp add: power_int_def nat_diff_distrib)
  finally have q: "(of_int m :: rat) * 2 powi k / 2 powi (int b - 1 + k - 52) = of_int (m * 2 ^ (53 - b))" .
  have "fl (of_int m * 2 powi k) = of_int (m * 2 ^ (53 - b)) * 2 powi (int b - 1 + k - 52)"
    by (simp only: fl_unfold [OF 1 2] q round_even_of_int)
  also have "\<dots> = of_int m * (2 powi (53 - int b) * 2 powi (int b - 1 + k - 52))"
    using b53 by (simp add: power_int_def nat_diff_distrib)
  also have "\<dots> = of_int m * 2 powi k"
    by (simp flip: power_int_add)
  finally show ?thesis .
qed

lemma fl_of_int: "\<bar>m\<bar> < 2 ^ 53 \<Longrightarrow> fl (of_int m) = of_int m"
  using fl_dyadic [of m 0] by simp

lemma fl_numeral: "(numeral n :: int) < 2 ^ 53 \<Longrightarrow> fl (numeral n) = numeral n"
  using fl_of_int [of "numeral n"] by simp

lemma fl_0: "fl 0 = 0"
  by (simp add: fl_def)

section \<open>Properties of generateSecMsGec\<close>

lemma undecimal_decimal: "undecimal (decimal n) = n"
proof (induction n rule: decimal.induct)
  case (1 n)
  show ?case
  proof (cases "n < 10")
    case True
    then show ?thesis by (subst decimal.simps) (simp add: undecimal_def)
  next
    case False
    then have "undecimal (decimal n) = 10 * undecimal (decimal (n div 10)) + n mod 10"
      by (subst decimal.simps) (simp add: undecimal_def)
    then show ?thesis using 1 False by simp
  qed
qed

lemma decimal_inj: "decimal a = decimal b \<Longrightarrow> a = b"
  by (metis undecimal_decimal)

lemma decimal_ascii: "list_all (\<lambda>c. c < 128) (decimal n)"
proof (induction n rule: decimal.induct)
  case (1 n)
  show ?case
  proof (cases "n < 10")
    case True
    then show ?thesis by (subst decimal.simps) simp
  next
    case False
    have "n mod 10 < 10" by simp
    then have "48 + n mod 10 < 128" by linarith
    then show ?thesis using 1 False by (subst decimal.simps) simp
  qed
qed

lemma getUnixTimestamp_Num:
  "getUnixTimestamp now \<lparr>clockSkewSeconds = Num skew\<rparr> = Num (fl (fl (of_int now / 1000) + skew))"
  by (simp add: getUnixTimestamp_def)

text \<open>
  Between the years 1601 and 14000 nothing but the sum with \<open>WIN_EPOCH\<close> is rounded:
  the multiple of 300 and its product with \<open>10\<^sup>7\<close> are doubles.
\<close>

lemma ticks_Num:
  assumes s: "s = fl (a + 11644473600)" and r: "0 \<le> s" "s < 400000000000"
  shows "ticks (Num a) = Num (of_int (300 * \<lfloor>s / 300\<rfloor> * 10000000))"
proof -
  define q where "q = \<lfloor>s / 300\<rfloor>"
  have q0: "0 \<le> q" using r(1) by (simp add: q_def)
  have "of_int q \<le> s / 300" unfolding q_def by (rule of_int_floor_le)
  then have "of_int q * 300 < (400000000000 :: rat)" using r(2) by (simp add: field_simps)
  then have "of_int (q * 300) < (of_int 400000000000 :: rat)" by simp
  then have q1: "q * 300 < 400000000000" by (simp only: of_int_less_iff)
  have tr: "js_trunc (s / 300) = q" using r(1) by (simp add: js_trunc_def q_def)
  have sum: "js_add (Num a) WIN_EPOCH = Num s" by (simp add: WIN_EPOCH_def s)
  have rem: "js_rem (Num s) (Num 300) = Num (s - 300 * of_int q)" by (simp add: tr)
  have "\<bar>300 * q\<bar> < 2 ^ 53" using q0 q1 by simp
  then have e1: "fl (300 * of_int q) = 300 * of_int q"
    using fl_of_int [of "300 * q"] by simp
  have sub: "js_sub (Num s) (Num (s - 300 * of_int q)) = Num (300 * of_int q)"
    by (simp add: e1)
  have "fl 10000000 = 10000000" by (simp add: fl_numeral)
  then have div: "js_div S_TO_NS (Num 100) = Num 10000000" by (simp add: S_TO_NS_def)
  have "\<bar>q * 5859375\<bar> < 2 ^ 53" using q0 q1 by simp
  then have e2: "fl (300 * of_int q * 10000000) = 300 * of_int q * 10000000"
    using fl_dyadic [of "q * 5859375" 9] by simp
  have mul: "js_mul (Num (300 * of_int q)) (Num 10000000) = Num (of_int (300 * q * 10000000))"
    using e2 by simp
  show ?thesis
    unfolding ticks_def sum rem sub div mul by (simp only: q_def)
qed

lemma toFixed0_of_int: "0 \<le> n \<Longrightarrow> toFixed0 (Num (of_int n)) = decimal (nat n)"
proof -
  assume n: "0 \<le> n"
  have "\<lfloor>(of_int n :: rat) + 1 / 2\<rfloor> = n" by linarith
  then show ?thesis using n by simp
qed

lemma strToHash_Num:
  assumes s: "s = fl (a + 11644473600)" and r: "0 \<le> s" "s < 400000000000"
  shows "strToHash (Num a) = decimal (nat (300 * \<lfloor>s / 300\<rfloor> * 10000000)) @ TRUSTED_CLIENT_TOKEN"
proof -
  have "0 \<le> \<lfloor>s / 300\<rfloor>" using r(1) by simp
  then have "0 \<le> 300 * \<lfloor>s / 300\<rfloor> * 10000000" by simp
  then have "toFixed0 (Num (of_int (300 * \<lfloor>s / 300\<rfloor> * 10000000))) =
      decimal (nat (300 * \<lfloor>s / 300\<rfloor> * 10000000))"
    by (rule toFixed0_of_int)
  then show ?thesis by (simp only: strToHash_def ticks_Num [OF s r])
qed

lemma strToHash_inj:
  assumes s1: "s1 = fl (a1 + 11644473600)" and r1: "0 \<le> s1" "s1 < 400000000000"
    and s2: "s2 = fl (a2 + 11644473600)" and r2: "0 \<le> s2" "s2 < 400000000000"
    and eq: "strToHash (Num a1) = strToHash (Num a2)"
  shows "\<lfloor>s1 / 300\<rfloor> = \<lfloor>s2 / 300\<rfloor>"
proof -
  define f1 where "f1 = \<lfloor>s1 / 300\<rfloor>"
  define f2 where "f2 = \<lfloor>s2 / 300\<rfloor>"
  have p: "0 \<le> f1" "0 \<le> f2" using r1(1) r2(1) by (simp_all add: f1_def f2_def)
  have "decimal (nat (300 * f1 * 10000000)) = decimal (nat (300 * f2 * 10000000))"
    using eq unfolding f1_def f2_def
    by (simp only: strToHash_Num [OF s1 r1] strToHash_Num [OF s2 r2] append_same_eq)
  then have "nat (300 * f1 * 10000000) = nat (300 * f2 * 10000000)"
    by (rule decimal_inj)
  then have "f1 = f2" using p by linarith
  then show ?thesis by (simp only: f1_def f2_def)
qed

lemma encode_ascii_inj:
  assumes "list_all (\<lambda>c. c < 128) s" "list_all (\<lambda>c. c < 128) s'"
    and "TextEncoder_encode s = TextEncoder_encode s'"
  shows "s = s'"
proof -
  have "map unat (map (word_of_nat :: nat \<Rightarrow> byte) s) = map unat (map (word_of_nat :: nat \<Rightarrow> byte) s')"
    using assms by (simp add: encode_ascii)
  moreover have "\<And>xs. list_all (\<lambda>c. c < 128) xs \<Longrightarrow> map unat (map (word_of_nat :: nat \<Rightarrow> byte) xs) = xs"
  proof -
    fix xs :: "nat list"
    show "list_all (\<lambda>c. c < 128) xs \<Longrightarrow> map unat (map (word_of_nat :: nat \<Rightarrow> byte) xs) = xs"
      by (induction xs) (simp_all add: unat_of_nat)
  qed
  ultimately show ?thesis using assms by simp
qed

lemma token_ascii: "list_all (\<lambda>c. c < 128) TRUSTED_CLIENT_TOKEN"
  by (simp add: TRUSTED_CLIENT_TOKEN_def ascii_def)

lemma strToHash_ascii:
  assumes s: "s = fl (a + 11644473600)" and r: "0 \<le> s" "s < 400000000000"
  shows "list_all (\<lambda>c. c < 128) (strToHash (Num a))"
  by (simp add: strToHash_Num [OF s r] decimal_ascii token_ascii)

lemma upper_hex_digit_inj:
  assumes "a < 16" "b < 16"
    and "toUpperCase [hex_digit a] = toUpperCase [hex_digit b]"
  shows "a = b"
  using assms by (auto simp: toUpperCase_def hex_digit_def split: if_splits)

lemma upper_hex_byte_inj:
  assumes "toUpperCase (hex_byte a) = toUpperCase (hex_byte b)"
  shows "a = b"
proof -
  have "unat a < 256" "unat b < 256"
    using unsigned_less [of a, where ?'a = nat] unsigned_less [of b, where ?'a = nat] by simp_all
  then have d: "unat a div 16 < 16" "unat b div 16 < 16"
    by simp_all
  have m: "unat a mod 16 < 16" "unat b mod 16 < 16" by simp_all
  have "toUpperCase [hex_digit (unat a div 16)] = toUpperCase [hex_digit (unat b div 16)]"
    "toUpperCase [hex_digit (unat a mod 16)] = toUpperCase [hex_digit (unat b mod 16)]"
    using assms by (simp_all add: hex_byte_def toUpperCase_def)
  then have "unat a div 16 = unat b div 16" "unat a mod 16 = unat b mod 16"
    using upper_hex_digit_inj d m by blast+
  then have "unat a = unat b" by (metis div_mult_mod_eq)
  then show ?thesis by (simp add: word_unat_eq_iff)
qed

lemma toUpperCase_append: "toUpperCase (xs @ ys) = toUpperCase xs @ toUpperCase ys"
  by (simp add: toUpperCase_def)

lemma upper_hex_inj:
  "toUpperCase (concat (map hex_byte xs)) = toUpperCase (concat (map hex_byte ys)) \<Longrightarrow> xs = ys"
proof (induction xs arbitrary: ys)
  case Nil
  then show ?case by (cases ys) (simp_all add: toUpperCase_def hex_byte_def)
next
  case (Cons x xs)
  then obtain y ys' where ys: "ys = y # ys'"
    by (cases ys) (simp_all add: toUpperCase_def hex_byte_def)
  have l: "length (toUpperCase (hex_byte x)) = length (toUpperCase (hex_byte y))"
    by (simp add: toUpperCase_def hex_byte_def)
  have "toUpperCase (hex_byte x) @ toUpperCase (concat (map hex_byte xs)) =
        toUpperCase (hex_byte y) @ toUpperCase (concat (map hex_byte ys'))"
    using Cons.prems ys by (simp add: toUpperCase_append)
  then have "toUpperCase (hex_byte x) = toUpperCase (hex_byte y)"
    "toUpperCase (concat (map hex_byte xs)) = toUpperCase (concat (map hex_byte ys'))"
    using l by simp_all
  then show ?case using Cons.IH upper_hex_byte_inj ys by blast
qed

text \<open>The digits that the source writes are the upper-case hexadecimal digits.\<close>

lemma upper_hex_digit:
  assumes "d < 16"
  shows "toUpperCase [hex_digit d] = [ascii ''0123456789ABCDEF'' ! d]"
proof -
  have "d = 0 \<or> d = 1 \<or> d = 2 \<or> d = 3 \<or> d = 4 \<or> d = 5 \<or> d = 6 \<or> d = 7 \<or>
        d = 8 \<or> d = 9 \<or> d = 10 \<or> d = 11 \<or> d = 12 \<or> d = 13 \<or> d = 14 \<or> d = 15"
    using assms by presburger
  then show ?thesis
    by (elim disjE) (simp_all add: toUpperCase_def hex_digit_def ascii_def)
qed

lemma toUpperCase_hex: "toUpperCase (concat (map hex_byte bytes)) = upper_hex bytes"
proof (induction bytes)
  case Nil
  show ?case by (simp add: toUpperCase_def upper_hex_def)
next
  case (Cons b bytes)
  have "unat b < 256" using unsigned_less [of b, where ?'a = nat] by simp
  then have d: "unat b div 16 < 16" by simp
  have m: "unat b mod 16 < 16" by simp
  have "toUpperCase (hex_byte b) =
      toUpperCase [hex_digit (unat b div 16)] @ toUpperCase [hex_digit (unat b mod 16)]"
    by (simp add: hex_byte_def toUpperCase_def)
  then have "toUpperCase (hex_byte b) =
      [ascii ''0123456789ABCDEF'' ! (unat b div 16), ascii ''0123456789ABCDEF'' ! (unat b mod 16)]"
    by (simp only: upper_hex_digit [OF d] upper_hex_digit [OF m] append.simps)
  then show ?case using Cons by (simp add: toUpperCase_append upper_hex_def)
qed

lemma generateSecMsGec_Num:
  assumes s: "s = fl (fl (fl (of_int now / 1000) + skew) + 11644473600)"
    and r: "0 \<le> s" "s < 400000000000"
  shows "generateSecMsGec (Some digest) now \<lparr>clockSkewSeconds = Num skew\<rparr> =
     Inr (upper_hex (digest (TextEncoder_encode
            (decimal (nat (300 * \<lfloor>s / 300\<rfloor> * 10000000)) @ TRUSTED_CLIENT_TOKEN))))"
  by (simp add: generateSecMsGec_def getUnixTimestamp_Num strToHash_Num [OF s r] toUpperCase_hex)

text \<open>
  Three calls. The first two are made at 00:00:00 and at 00:04:50 on 1 January 2026,
  the second with a clock skew of 9.5 seconds. The third is made at 00:05:00 with a
  clock skew of \<open>-2\<^sup>-\<^sup>2\<^sup>1\<close> seconds: its adjusted time is below 00:05:00, and the sum
  with \<open>WIN_EPOCH\<close>, which has no more than 19 binary digits after the point, is rounded
  up to 13411699500.
\<close>

lemma fl_dyadic_eq:
  "x = of_int m * 2 powi k \<Longrightarrow> \<bar>m\<bar> < 2 ^ 53 \<Longrightarrow> fl x = of_int m * 2 powi k"
  by (simp only: fl_dyadic)

lemma sample_adjusted:
  "fl (fl (of_int 1767225600000 / 1000) + 0) = 1767225600"
  "fl (fl (of_int 1767225890000 / 1000) + 19 / 2) = 3534451799 / 2"
  "fl (fl (of_int 1767225900000 / 1000) + - (1 / 2097152)) = 3706141330636799 / 2097152"
proof -
  have d: "fl (of_int 1767225600000 / 1000) = 1767225600"
    "fl (of_int 1767225890000 / 1000) = 1767225890"
    "fl (of_int 1767225900000 / 1000) = 1767225900"
    by (simp_all add: fl_numeral)
  have a: "fl (1767225600 + 0) = 1767225600"
    by (simp add: fl_numeral)
  have b: "fl (1767225890 + 19 / 2) = 3534451799 / 2"
    using fl_dyadic_eq [of "1767225890 + 19 / 2" 3534451799 "- 1"]
    by (simp add: power_int_minus)
  have c: "fl (1767225900 + - (1 / 2097152)) = 3706141330636799 / 2097152"
    using fl_dyadic_eq [of "1767225900 + - (1 / 2097152)" 3706141330636799 "- 21"]
    by (simp add: power_int_minus)
  show "fl (fl (of_int 1767225600000 / 1000) + 0) = 1767225600"
    by (simp only: d a)
  show "fl (fl (of_int 1767225890000 / 1000) + 19 / 2) = 3534451799 / 2"
    by (simp only: d b)
  show "fl (fl (of_int 1767225900000 / 1000) + - (1 / 2097152)) = 3706141330636799 / 2097152"
    by (simp only: d c)
qed

lemma sample_times:
  "getUnixTimestamp 1767225600000 \<lparr>clockSkewSeconds = Num 0\<rparr> = Num 1767225600"
  "getUnixTimestamp 1767225890000 \<lparr>clockSkewSeconds = Num (19 / 2)\<rparr> = Num (3534451799 / 2)"
  "getUnixTimestamp 1767225900000 \<lparr>clockSkewSeconds = Num (- (1 / 2097152))\<rparr> =
     Num (3706141330636799 / 2097152)"
  by (simp_all only: getUnixTimestamp_Num sample_adjusted)

lemma sample_sums:
  "fl (1767225600 + 11644473600) = 13411699200"
  "fl (3534451799 / 2 + 11644473600) = 26823398999 / 2"
  "fl (3706141330636799 / 2097152 + 11644473600) = 13411699500"
proof -
  show "fl (1767225600 + 11644473600) = 13411699200"
    by (simp add: fl_numeral)
  show "fl (3534451799 / 2 + 11644473600) = 26823398999 / 2"
    using fl_dyadic_eq [of "3534451799 / 2 + 11644473600" 26823398999 "- 1"]
    by (simp add: power_int_minus)
  have x: "(3706141330636799 / 2097152 + 11644473600 :: rat) = 28126372429823999 / 2097152"
    by simp
  have lo: "2 powi 33 \<le> \<bar>28126372429823999 / 2097152 :: rat\<bar>" by simp
  have hi: "\<bar>28126372429823999 / 2097152 :: rat\<bar> < 2 powi (33 + 1)" by simp
  have q: "(28126372429823999 / 2097152 :: rat) / 2 powi (33 - 52) = 28126372429823999 / 4"
    by (simp add: power_int_minus)
  have f: "\<lfloor>28126372429823999 / 4 :: rat\<rfloor> = 7031593107455999"
    by (rule floor_unique) simp_all
  have "round_even (28126372429823999 / 4) = 7031593107456000"
    by (simp add: round_even_def f)
  then have "fl (28126372429823999 / 2097152) = 13411699500"
    by (simp only: fl_unfold [OF lo hi] q) (simp add: power_int_minus)
  then show "fl (3706141330636799 / 2097152 + 11644473600) = 13411699500"
    by (simp only: x)
qed

lemma sample_s:
  "fl (fl (fl (of_int 1767225600000 / 1000) + 0) + 11644473600) = 13411699200"
  "fl (fl (fl (of_int 1767225890000 / 1000) + 19 / 2) + 11644473600) = 26823398999 / 2"
  "fl (fl (fl (of_int 1767225900000 / 1000) + - (1 / 2097152)) + 11644473600) = 13411699500"
  by (simp_all only: sample_adjusted sample_sums)

lemma sample_floors:
  "\<lfloor>13411699200 / 300 :: rat\<rfloor> = 44705664"
  "\<lfloor>26823398999 / 2 / 300 :: rat\<rfloor> = 44705664"
  "\<lfloor>13411699500 / 300 :: rat\<rfloor> = 44705665"
  by (rule floor_unique; simp)+

lemma bucket_values:
  "bucket 1767225600 = 44705664" "bucket (3706141330636799 / 2097152) = 44705664"
  unfolding bucket_def by (rule floor_unique; simp)+

lemma decimal_values:
  "decimal 134116992000000000 = ascii ''134116992000000000''"
  "decimal 134116995000000000 = ascii ''134116995000000000''"
  by (simp_all add: decimal.simps ascii_def)

lemma sha256_bucket_44705664:
  "sha256
     [49, 51, 52, 49, 49, 54, 57, 57, 50, 48, 48, 48, 48, 48, 48, 48,
     48, 48, 54, 65, 53, 65, 65, 49, 68, 52, 69, 65, 70, 70, 52, 69,
     57, 70, 66, 51, 55, 69, 50, 51, 68, 54, 56, 52, 57, 49, 68, 54,
     70, 52] =
     [66, 209, 148, 116, 3, 253, 148, 151, 84, 54, 198, 93, 191, 202, 128, 3,
     7, 63, 156, 181, 195, 241, 206, 37, 175, 137, 97, 161, 29, 124, 61, 254]"
proof -
  have z: "replicate 5 (0::nat) = [0, 0, 0, 0, 0]"
    by (simp add: numeral_eq_Suc)
  have p: "sha_pad
       [49, 51, 52, 49, 49, 54, 57, 57, 50, 48, 48, 48, 48, 48, 48, 48,
       48, 48, 54, 65, 53, 65, 65, 49, 68, 52, 69, 65, 70, 70, 52, 69,
       57, 70, 66, 51, 55, 69, 50, 51, 68, 54, 56, 52, 57, 49, 68, 54,
       70, 52] =
       [49, 51, 52, 49, 49, 54, 57, 57, 50, 48, 48, 48, 48, 48, 48, 48,
       48, 48, 54, 65, 53, 65, 65, 49, 68, 52, 69, 65, 70, 70, 52, 69,
       57, 70, 66, 51, 55, 69, 50, 51, 68, 54, 56, 52, 57, 49, 68, 54,
       70, 52, 128, 0, 0, 0, 0, 0, 0, 0, 0, 0, 0, 0, 1, 144]"
    by (simp add: sha_pad_def sha_be_bytes8_def sha_be_bytes4_def z)
  have w: "sha_expand sha_K (sha_be32
       [49, 51, 52, 49, 49, 54, 57, 57, 50, 48, 48, 48, 48, 48, 48, 48,
       48, 48, 54, 65, 53, 65, 65, 49, 68, 52, 69, 65, 70, 70, 52, 69,
       57, 70, 66, 51, 55, 69, 50, 51, 68, 54, 56, 52, 57, 49, 68, 54,
       70, 52, 128, 0, 0, 0, 0, 0, 0, 0, 0, 0, 0, 0, 1, 144]) =
       [0x31333431, 0x31363939, 0x32303030, 0x30303030, 0x30303641, 0x35414131, 0x44344541, 0x46463445,
       0x39464233, 0x37453233, 0x44363834, 0x39314436, 0x46348000, 0x00000000, 0x00000000, 0x00000190,
       0x62834d7c, 0xe094dc57, 0xa4d4fc92, 0xf5f40447, 0x46b15204, 0x53366ba5, 0xd6dc6a1c, 0x9352dabb,
       0xfe5e472c, 0x004c58b5, 0x5fd07832, 0x4f79b200, 0xcc737bb1, 0xc6305a5b, 0x86549e55, 0x4c7fd819,
       0xc457d70f, 0x6679842d, 0x95ea53e3, 0x09cc5ad2, 0x4ab464a9, 0xb9ad40e3, 0xb6117d80, 0x37eabe79,
       0x7259e8a2, 0x107e2c41, 0x98e88b1b, 0x12d5c701, 0x94c5dc52, 0x73f9517f, 0xe0d6de07, 0x34280eec,
       0xc0d9d729, 0x4777217b, 0x2da09a82, 0x55ff04b2, 0x9d460e60, 0x462c5f3a, 0x0c21683d, 0xcdb788b9,
       0x5e2ab7ba, 0x7a819fa1, 0x6de4d625, 0x6cfb9cdb, 0x7186a27a, 0xe2632d0a, 0x1152dae5, 0xc3c075d9]"
    by (simp add: sha_K_def sha_sigma0_def sha_sigma1_def sha_rotr_def sha_add_def)
  have r: "sha_rounds sha_K
       [0x31333431, 0x31363939, 0x32303030, 0x30303030, 0x30303641, 0x35414131, 0x44344541, 0x46463445,
       0x39464233, 0x37453233, 0x44363834, 0x39314436, 0x46348000, 0x00000000, 0x00000000, 0x00000190,
       0x62834d7c, 0xe094dc57, 0xa4d4fc92, 0xf5f40447, 0x46b15204, 0x53366ba5, 0xd6dc6a1c, 0x9352dabb,
       0xfe5e472c, 0x004c58b5, 0x5fd07832, 0x4f79b200, 0xcc737bb1, 0xc6305a5b, 0x86549e55, 0x4c7fd819,
       0xc457d70f, 0x6679842d, 0x95ea53e3, 0x09cc5ad2, 0x4ab464a9, 0xb9ad40e3, 0xb6117d80, 0x37eabe79,
       0x7259e8a2, 0x107e2c41, 0x98e88b1b, 0x12d5c701, 0x94c5dc52, 0x73f9517f, 0xe0d6de07, 0x34280eec,
       0xc0d9d729, 0x4777217b, 0x2da09a82, 0x55ff04b2, 0x9d460e60, 0x462c5f3a, 0x0c21683d, 0xcdb788b9,
       0x5e2ab7ba, 0x7a819fa1, 0x6de4d625, 0x6cfb9cdb, 0x7186a27a, 0xe2632d0a, 0x1152dae5, 0xc3c075d9] sha_H0 =
       [0xd8c7ae0d, 0x4895e612, 0x17c7d2eb, 0x1a7a8ac9, 0xb6314a36, 0x28ec6599, 0x900587f6, 0xc19b70e5]"
    by (simp add: sha_K_def sha_H0_def sha_T1_def sha_T2_def sha_Ch_def sha_Maj_def
        sha_Sigma0_def sha_Sigma1_def sha_rotr_def sha_add_def)
  have c: "sha_compress sha_H0
       [49, 51, 52, 49, 49, 54, 57, 57, 50, 48, 48, 48, 48, 48, 48, 48,
       48, 48, 54, 65, 53, 65, 65, 49, 68, 52, 69, 65, 70, 70, 52, 69,
       57, 70, 66, 51, 55, 69, 50, 51, 68, 54, 56, 52, 57, 49, 68, 54,
       70, 52, 128, 0, 0, 0, 0, 0, 0, 0, 0, 0, 0, 0, 1, 144] =
       [0x42d19474, 0x03fd9497, 0x5436c65d, 0xbfca8003, 0x073f9cb5, 0xc3f1ce25, 0xaf8961a1, 0x1d7c3dfe]"
    unfolding sha_compress_def w r by (simp add: sha_H0_def sha_add_def)
  have "sha_blocks sha_H0 (sha_pad
       [49, 51, 52, 49, 49, 54, 57, 57, 50, 48, 48, 48, 48, 48, 48, 48,
       48, 48, 54, 65, 53, 65, 65, 49, 68, 52, 69, 65, 70, 70, 52, 69,
       57, 70, 66, 51, 55, 69, 50, 51, 68, 54, 56, 52, 57, 49, 68, 54,
       70, 52]) =
       [0x42d19474, 0x03fd9497, 0x5436c65d, 0xbfca8003, 0x073f9cb5, 0xc3f1ce25, 0xaf8961a1, 0x1d7c3dfe]"
    unfolding p by (subst sha_blocks.simps, subst sha_blocks.simps, simp add: c [simplified])
  then show ?thesis
    by (simp add: sha256_def sha_be_bytes4_def)
qed

lemma sha256_bucket_44705665:
  "sha256
     [49, 51, 52, 49, 49, 54, 57, 57, 53, 48, 48, 48, 48, 48, 48, 48,
     48, 48, 54, 65, 53, 65, 65, 49, 68, 52, 69, 65, 70, 70, 52, 69,
     57, 70, 66, 51, 55, 69, 50, 51, 68, 54, 56, 52, 57, 49, 68, 54,
     70, 52] =
     [209, 85, 92, 231, 95, 69, 148, 121, 237, 5, 183, 101, 179, 247, 32, 213,
     71, 242, 117, 9, 173, 104, 209, 1, 6, 54, 13, 42, 53, 250, 227, 36]"
proof -
  have z: "replicate 5 (0::nat) = [0, 0, 0, 0, 0]"
    by (simp add: numeral_eq_Suc)
  have p: "sha_pad
       [49, 51, 52, 49, 49, 54, 57, 57, 53, 48, 48, 48, 48, 48, 48, 48,
       48, 48, 54, 65, 53, 65, 65, 49, 68, 52, 69, 65, 70, 70, 52, 69,
       57, 70, 66, 51, 55, 69, 50, 51, 68, 54, 56, 52, 57, 49, 68, 54,
       70, 52] =
       [49, 51, 52, 49, 49, 54, 57, 57, 53, 48, 48, 48, 48, 48, 48, 48,
       48, 48, 54, 65, 53, 65, 65, 49, 68, 52, 69, 65, 70, 70, 52, 69,
       57, 70, 66, 51, 55, 69, 50, 51, 68, 54, 56, 52, 57, 49, 68, 54,
       70, 52, 128, 0, 0, 0, 0, 0, 0, 0, 0, 0, 0, 0, 1, 144]"
    by (simp add: sha_pad_def sha_be_bytes8_def sha_be_bytes4_def z)
  have w: "sha_expand sha_K (sha_be32
       [49, 51, 52, 49, 49, 54, 57, 57, 53, 48, 48, 48, 48, 48, 48, 48,
       48, 48, 54, 65, 53, 65, 65, 49, 68, 52, 69, 65, 70, 70, 52, 69,
       57, 70, 66, 51, 55, 69, 50, 51, 68, 54, 56, 52, 57, 49, 68, 54,
       70, 52, 128, 0, 0, 0, 0, 0, 0, 0, 0, 0, 0, 0, 1, 144]) =
       [0x31333431, 0x31363939, 0x35303030, 0x30303030, 0x30303641, 0x35414131, 0x44344541, 0x46463445,
       0x39464233, 0x37453233, 0x44363834, 0x39314436, 0x46348000, 0x00000000, 0x00000000, 0x00000190,
       0x62834d7c, 0xe126dc97, 0xa7d4fc92, 0xb63c1fd8, 0x46b21064, 0x5cdab53e, 0x9db8694d, 0xa6cfdfaf,
       0x8020142e, 0xe1297d89, 0x3d7eb45f, 0x397bc415, 0x2fba5bfb, 0x383eceb0, 0x2dbcfc9c, 0x666aa1fe,
       0xaa4735bd, 0x321095e4, 0xfdf28898, 0x827acec2, 0x6ebe71f4, 0x5c105c30, 0xb781ae58, 0xbeb019ae,
       0xe5805c6d, 0x03ac0f65, 0xc1d472dc, 0x93eff4cf, 0x17abf03b, 0xf7672a84, 0xcb0a330c, 0x5f8d3d4d,
       0xf927c29d, 0xb9617bb6, 0xd2009489, 0xa6223c31, 0x3b3d2c17, 0x4cdb1a0d, 0x97576e01, 0x768c87d0,
       0xc3729dd6, 0x65ca516f, 0xf5c1da08, 0xba8539bb, 0x18a23552, 0x56b704a6, 0x7bba0cd4, 0x5a43f10e]"
    by (simp add: sha_K_def sha_sigma0_def sha_sigma1_def sha_rotr_def sha_add_def)
  have r: "sha_rounds sha_K
       [0x31333431, 0x31363939, 0x35303030, 0x30303030, 0x30303641, 0x35414131, 0x44344541, 0x46463445,
       0x39464233, 0x37453233, 0x44363834, 0x39314436, 0x46348000, 0x00000000, 0x00000000, 0x00000190,
       0x62834d7c, 0xe126dc97, 0xa7d4fc92, 0xb63c1fd8, 0x46b21064, 0x5cdab53e, 0x9db8694d, 0xa6cfdfaf,
       0x8020142e, 0xe1297d89, 0x3d7eb45f, 0x397bc415, 0x2fba5bfb, 0x383eceb0, 0x2dbcfc9c, 0x666aa1fe,
       0xaa4735bd, 0x321095e4, 0xfdf28898, 0x827acec2, 0x6ebe71f4, 0x5c105c30, 0xb781ae58, 0xbeb019ae,
       0xe5805c6d, 0x03ac0f65, 0xc1d472dc, 0x93eff4cf, 0x17abf03b, 0xf7672a84, 0xcb0a330c, 0x5f8d3d4d,
       0xf927c29d, 0xb9617bb6, 0xd2009489, 0xa6223c31, 0x3b3d2c17, 0x4cdb1a0d, 0x97576e01, 0x768c87d0,
       0xc3729dd6, 0x65ca516f, 0xf5c1da08, 0xba8539bb, 0x18a23552, 0x56b704a6, 0x7bba0cd4, 0x5a43f10e] sha_H0 =
       [0x674b7680, 0xa3dde5f4, 0xb096c3f3, 0x0ea72b9b, 0xf6e4228a, 0x12636875, 0xe6b2337f, 0xda1a160b]"
    by (simp add: sha_K_def sha_H0_def sha_T1_def sha_T2_def sha_Ch_def sha_Maj_def
        sha_Sigma0_def sha_Sigma1_def sha_rotr_def sha_add_def)
  have c: "sha_compress sha_H0
       [49, 51, 52, 49, 49, 54, 57, 57, 53, 48, 48, 48, 48, 48, 48, 48,
       48, 48, 54, 65, 53, 65, 65, 49, 68, 52, 69, 65, 70, 70, 52, 69,
       57, 70, 66, 51, 55, 69, 50, 51, 68, 54, 56, 52, 57, 49, 68, 54,
       70, 52, 128, 0, 0, 0, 0, 0, 0, 0, 0, 0, 0, 0, 1, 144] =
       [0xd1555ce7, 0x5f459479, 0xed05b765, 0xb3f720d5, 0x47f27509, 0xad68d101, 0x06360d2a, 0x35fae324]"
    unfolding sha_compress_def w r by (simp add: sha_H0_def sha_add_def)
  have "sha_blocks sha_H0 (sha_pad
       [49, 51, 52, 49, 49, 54, 57, 57, 53, 48, 48, 48, 48, 48, 48, 48,
       48, 48, 54, 65, 53, 65, 65, 49, 68, 52, 69, 65, 70, 70, 52, 69,
       57, 70, 66, 51, 55, 69, 50, 51, 68, 54, 56, 52, 57, 49, 68, 54,
       70, 52]) =
       [0xd1555ce7, 0x5f459479, 0xed05b765, 0xb3f720d5, 0x47f27509, 0xad68d101, 0x06360d2a, 0x35fae324]"
    unfolding p by (subst sha_blocks.simps, subst sha_blocks.simps, simp add: c [simplified])
  then show ?thesis
    by (simp add: sha256_def sha_be_bytes4_def)
qed

lemma sample_tokens:
  "generateSecMsGec (Some sha256) 1767225600000 \<lparr>clockSkewSeconds = Num 0\<rparr> =
     Inr (ascii ''42D1947403FD94975436C65DBFCA8003073F9CB5C3F1CE25AF8961A11D7C3DFE'')"
  "generateSecMsGec (Some sha256) 1767225900000 \<lparr>clockSkewSeconds = Num (- (1 / 2097152))\<rparr> =
     Inr (ascii ''D1555CE75F459479ED05B765B3F720D547F27509AD68D10106360D2A35FAE324'')"
proof -
  have a: "TextEncoder_encode (ascii ''134116992000000000'' @ TRUSTED_CLIENT_TOKEN) =
      map of_nat (ascii ''134116992000000000'' @ TRUSTED_CLIENT_TOKEN)"
    by (rule encode_ascii) (simp add: TRUSTED_CLIENT_TOKEN_def ascii_def)
  have c: "TextEncoder_encode (ascii ''134116995000000000'' @ TRUSTED_CLIENT_TOKEN) =
      map of_nat (ascii ''134116995000000000'' @ TRUSTED_CLIENT_TOKEN)"
    by (rule encode_ascii) (simp add: TRUSTED_CLIENT_TOKEN_def ascii_def)
  note s1 = sample_s(1) [symmetric]
  note s3 = sample_s(3) [symmetric]
  show "generateSecMsGec (Some sha256) 1767225600000 \<lparr>clockSkewSeconds = Num 0\<rparr> =
      Inr (ascii ''42D1947403FD94975436C65DBFCA8003073F9CB5C3F1CE25AF8961A11D7C3DFE'')"
    unfolding generateSecMsGec_Num [OF s1, of sha256, simplified] sample_floors
    by (simp add: decimal_values a)
       (simp add: TRUSTED_CLIENT_TOKEN_def ascii_def sha256_bucket_44705664 upper_hex_def)
  show "generateSecMsGec (Some sha256) 1767225900000 \<lparr>clockSkewSeconds = Num (- (1 / 2097152))\<rparr> =
      Inr (ascii ''D1555CE75F459479ED05B765B3F720D547F27509AD68D10106360D2A35FAE324'')"
    unfolding generateSecMsGec_Num [OF s3, of sha256, simplified] sample_floors
    by (simp add: decimal_values c)
       (simp add: TRUSTED_CLIENT_TOKEN_def ascii_def sha256_bucket_44705665 upper_hex_def)
qed

text \<open>
  Claim C4 as stated fails. The adjusted times of the first and of the third call,
  1767225600 and \<open>1767225900 - 2\<^sup>-\<^sup>2\<^sup>1\<close> seconds, are in the same bucket of 300 seconds,
  but the tokens differ: the third call hashes the ticks of 13411699500 seconds, the
  start of the next bucket, to which its sum with \<open>WIN_EPOCH\<close> has been rounded.
\<close>

theorem generateSecMsGec_rounded_sum:
  "getUnixTimestamp 1767225600000 \<lparr>clockSkewSeconds = Num 0\<rparr> = Num 1767225600 \<and>
   getUnixTimestamp 1767225900000 \<lparr>clockSkewSeconds = Num (- (1 / 2097152))\<rparr> =
     Num (3706141330636799 / 2097152) \<and>
   bucket 1767225600 = 44705664 \<and>
   bucket (3706141330636799 / 2097152) = 44705664 \<and>
   generateSecMsGec (Some sha256) 1767225600000 \<lparr>clockSkewSeconds = Num 0\<rparr> =
     Inr (ascii ''42D1947403FD94975436C65DBFCA8003073F9CB5C3F1CE25AF8961A11D7C3DFE'') \<and>
   generateSecMsGec (Some sha256) 1767225900000 \<lparr>clockSkewSeconds = Num (- (1 / 2097152))\<rparr> =
     Inr (ascii ''D1555CE75F459479ED05B765B3F720D547F27509AD68D10106360D2A35FAE324'') \<and>
   generateSecMsGec (Some sha256) 1767225600000 \<lparr>clockSkewSeconds = Num 0\<rparr> \<noteq>
     generateSecMsGec (Some sha256) 1767225900000 \<lparr>clockSkewSeconds = Num (- (1 / 2097152))\<rparr>"
proof -
  have "ascii ''42D1947403FD94975436C65DBFCA8003073F9CB5C3F1CE25AF8961A11D7C3DFE'' \<noteq>
        ascii ''D1555CE75F459479ED05B765B3F720D547F27509AD68D10106360D2A35FAE324''"
    by (simp add: ascii_def)
  then show ?thesis
    by (simp only: sample_times sample_tokens bucket_values) simp
qed

text \<open>
  Claim C4, amended. The adjusted time is the double nearest to \<^verbatim>\<open>Date.now() / 1e3\<close>
  plus the clock skew, rounded again, and \<open>s\<close> is its sum with 11644473600, rounded to
  a double. For \<open>0 \<le> s < 4 \<times> 10\<^sup>1\<^sup>1\<close> (the years 1601 to 14000) the ticks are \<open>s\<close> cut
  down to a multiple of 300 and multiplied by \<open>10\<^sup>7\<close>, and the token is the upper-case
  hexadecimal digest of the decimal digits of that number followed by the shared
  secret. So two calls whose sums \<open>s\<close> are in the same bucket of 300 seconds give the
  same token. For two sums in different buckets the hashed data differ, and the
  tokens differ unless the digest of the host takes the two data to the same value.
\<close>

theorem generateSecMsGec_buckets:
  assumes s1: "s1 = fl (fl (fl (of_int now1 / 1000) + skew1) + 11644473600)"
    and s2: "s2 = fl (fl (fl (of_int now2 / 1000) + skew2) + 11644473600)"
    and r1: "0 \<le> s1" "s1 < 400000000000" and r2: "0 \<le> s2" "s2 < 400000000000"
  shows "getUnixTimestamp now1 \<lparr>clockSkewSeconds = Num skew1\<rparr> =
      Num (fl (fl (of_int now1 / 1000) + skew1)) \<and>
    ticks (getUnixTimestamp now1 \<lparr>clockSkewSeconds = Num skew1\<rparr>) =
      Num (of_int (300 * \<lfloor>s1 / 300\<rfloor> * 10000000)) \<and>
    generateSecMsGec (Some digest) now1 \<lparr>clockSkewSeconds = Num skew1\<rparr> =
      Inr (upper_hex (digest (TextEncoder_encode
            (decimal (nat (300 * \<lfloor>s1 / 300\<rfloor> * 10000000)) @ TRUSTED_CLIENT_TOKEN)))) \<and>
    (\<lfloor>s1 / 300\<rfloor> = \<lfloor>s2 / 300\<rfloor> \<longrightarrow>
       generateSecMsGec (Some digest) now1 \<lparr>clockSkewSeconds = Num skew1\<rparr> =
       generateSecMsGec (Some digest) now2 \<lparr>clockSkewSeconds = Num skew2\<rparr>) \<and>
    (\<lfloor>s1 / 300\<rfloor> \<noteq> \<lfloor>s2 / 300\<rfloor> \<longrightarrow>
       TextEncoder_encode (strToHash (getUnixTimestamp now1 \<lparr>clockSkewSeconds = Num skew1\<rparr>)) \<noteq>
       TextEncoder_encode (strToHash (getUnixTimestamp now2 \<lparr>clockSkewSeconds = Num skew2\<rparr>)) \<and>
       (digest (TextEncoder_encode (strToHash (getUnixTimestamp now1 \<lparr>clockSkewSeconds = Num skew1\<rparr>))) \<noteq>
        digest (TextEncoder_encode (strToHash (getUnixTimestamp now2 \<lparr>clockSkewSeconds = Num skew2\<rparr>))) \<longrightarrow>
        generateSecMsGec (Some digest) now1 \<lparr>clockSkewSeconds = Num skew1\<rparr> \<noteq>
        generateSecMsGec (Some digest) now2 \<lparr>clockSkewSeconds = Num skew2\<rparr>))"
proof -
  define a1 where "a1 = fl (fl (of_int now1 / 1000) + skew1)"
  define a2 where "a2 = fl (fl (of_int now2 / 1000) + skew2)"
  have t1: "getUnixTimestamp now1 \<lparr>clockSkewSeconds = Num skew1\<rparr> = Num a1"
    by (simp add: getUnixTimestamp_Num a1_def)
  have t2: "getUnixTimestamp now2 \<lparr>clockSkewSeconds = Num skew2\<rparr> = Num a2"
    by (simp add: getUnixTimestamp_Num a2_def)
  have s1': "s1 = fl (a1 + 11644473600)" using s1 by (simp add: a1_def)
  have s2': "s2 = fl (a2 + 11644473600)" using s2 by (simp add: a2_def)
  show ?thesis
    unfolding t1 t2
  proof (intro conjI impI)
    show "Num a1 = Num (fl (fl (of_int now1 / 1000) + skew1))"
      by (simp only: a1_def)
    show "ticks (Num a1) = Num (of_int (300 * \<lfloor>s1 / 300\<rfloor> * 10000000))"
      by (rule ticks_Num [OF s1' r1])
    show "generateSecMsGec (Some digest) now1 \<lparr>clockSkewSeconds = Num skew1\<rparr> =
        Inr (upper_hex (digest (TextEncoder_encode
              (decimal (nat (300 * \<lfloor>s1 / 300\<rfloor> * 10000000)) @ TRUSTED_CLIENT_TOKEN))))"
      by (rule generateSecMsGec_Num [OF s1 r1])
  next
    assume "\<lfloor>s1 / 300\<rfloor> = \<lfloor>s2 / 300\<rfloor>"
    then show "generateSecMsGec (Some digest) now1 \<lparr>clockSkewSeconds = Num skew1\<rparr> =
        generateSecMsGec (Some digest) now2 \<lparr>clockSkewSeconds = Num skew2\<rparr>"
      by (simp add: generateSecMsGec_Num [OF s1 r1] generateSecMsGec_Num [OF s2 r2])
  next
    assume "\<lfloor>s1 / 300\<rfloor> \<noteq> \<lfloor>s2 / 300\<rfloor>"
    then show "TextEncoder_encode (strToHash (Num a1)) \<noteq> TextEncoder_encode (strToHash (Num a2))"
      using strToHash_inj [OF s1' r1 s2' r2]
        encode_ascii_inj [OF strToHash_ascii [OF s1' r1] strToHash_ascii [OF s2' r2]] by blast
  next
    assume "digest (TextEncoder_encode (strToHash (Num a1))) \<noteq>
            digest (TextEncoder_encode (strToHash (Num a2)))"
    then show "generateSecMsGec (Some digest) now1 \<lparr>clockSkewSeconds = Num skew1\<rparr> \<noteq>
        generateSecMsGec (Some digest) now2 \<lparr>clockSkewSeconds = Num skew2\<rparr>"
      using upper_hex_inj by (auto simp: generateSecMsGec_def t1 t2)
  qed
qed

theorem generateSecMsGec_buckets_witness:
  "generateSecMsGec (Some sha256) 1767225600000 \<lparr>clockSkewSeconds = Num 0\<rparr> =
     Inr (ascii ''42D1947403FD94975436C65DBFCA8003073F9CB5C3F1CE25AF8961A11D7C3DFE'') \<and>
   generateSecMsGec (Some sha256) 1767225890000 \<lparr>clockSkewSeconds = Num (19 / 2)\<rparr> =
     Inr (ascii ''42D1947403FD94975436C65DBFCA8003073F9CB5C3F1CE25AF8961A11D7C3DFE'') \<and>
   generateSecMsGec (Some sha256) 1767225600000 \<lparr>clockSkewSeconds = Num 0\<rparr> \<noteq>
     generateSecMsGec (Some sha256) 1767225900000 \<lparr>clockSkewSeconds = Num (- (1 / 2097152))\<rparr>"
proof -
  note s1 = sample_s(1) [symmetric]
  note s2 = sample_s(2) [symmetric]
  note s3 = sample_s(3) [symmetric]
  have r: "(0 :: rat) \<le> 13411699200" "(13411699200 :: rat) < 400000000000"
    "(0 :: rat) \<le> 26823398999 / 2" "(26823398999 / 2 :: rat) < 400000000000"
    "(0 :: rat) \<le> 13411699500" "(13411699500 :: rat) < 400000000000"
    by simp_all
  note same = generateSecMsGec_buckets [OF s1 s2 r(1) r(2) r(3) r(4), of sha256]
  note other = generateSecMsGec_buckets [OF s1 s3 r(1) r(2) r(5) r(6), of sha256]
  have a: "generateSecMsGec (Some sha256) 1767225600000 \<lparr>clockSkewSeconds = Num 0\<rparr> =
      Inr (ascii ''42D1947403FD94975436C65DBFCA8003073F9CB5C3F1CE25AF8961A11D7C3DFE'')"
    by (rule sample_tokens(1))
  from same have "\<lfloor>13411699200 / 300 :: rat\<rfloor> = \<lfloor>26823398999 / 2 / 300 :: rat\<rfloor> \<longrightarrow>
      generateSecMsGec (Some sha256) 1767225600000 \<lparr>clockSkewSeconds = Num 0\<rparr> =
      generateSecMsGec (Some sha256) 1767225890000 \<lparr>clockSkewSeconds = Num (19 / 2)\<rparr>"
    by blast
  then have b: "generateSecMsGec (Some sha256) 1767225890000 \<lparr>clockSkewSeconds = Num (19 / 2)\<rparr> =
      Inr (ascii ''42D1947403FD94975436C65DBFCA8003073F9CB5C3F1CE25AF8961A11D7C3DFE'')"
    by (simp only: sample_floors a [symmetric])
  have e: "TextEncoder_encode (ascii ''134116992000000000'' @ TRUSTED_CLIENT_TOKEN) =
      map of_nat (ascii ''134116992000000000'' @ TRUSTED_CLIENT_TOKEN)"
    "TextEncoder_encode (ascii ''134116995000000000'' @ TRUSTED_CLIENT_TOKEN) =
      map of_nat (ascii ''134116995000000000'' @ TRUSTED_CLIENT_TOKEN)"
    by (rule encode_ascii, simp add: TRUSTED_CLIENT_TOKEN_def ascii_def)+
  have h: "strToHash (Num 1767225600) = ascii ''134116992000000000'' @ TRUSTED_CLIENT_TOKEN"
    "strToHash (Num (3706141330636799 / 2097152)) = ascii ''134116995000000000'' @ TRUSTED_CLIENT_TOKEN"
    using strToHash_Num [OF sample_sums(1) [symmetric]] strToHash_Num [OF sample_sums(3) [symmetric]]
    by (simp_all add: sample_floors decimal_values)
  have d: "sha256 (TextEncoder_encode (strToHash (Num 1767225600))) \<noteq>
      sha256 (TextEncoder_encode (strToHash (Num (3706141330636799 / 2097152))))"
    unfolding h e
    by (simp add: TRUSTED_CLIENT_TOKEN_def ascii_def sha256_bucket_44705664 sha256_bucket_44705665)
  from other have "\<lfloor>13411699200 / 300 :: rat\<rfloor> \<noteq> \<lfloor>13411699500 / 300 :: rat\<rfloor> \<longrightarrow>
      (sha256 (TextEncoder_encode (strToHash
         (getUnixTimestamp 1767225600000 \<lparr>clockSkewSeconds = Num 0\<rparr>))) \<noteq>
       sha256 (TextEncoder_encode (strToHash
         (getUnixTimestamp 1767225900000 \<lparr>clockSkewSeconds = Num (- (1 / 2097152))\<rparr>))) \<longrightarrow>
       generateSecMsGec (Some sha256) 1767225600000 \<lparr>clockSkewSeconds = Num 0\<rparr> \<noteq>
       generateSecMsGec (Some sha256) 1767225900000 \<lparr>clockSkewSeconds = Num (- (1 / 2097152))\<rparr>)"
    by blast
  then have c: "generateSecMsGec (Some sha256) 1767225600000 \<lparr>clockSkewSeconds = Num 0\<rparr> \<noteq>
      generateSecMsGec (Some sha256) 1767225900000 \<lparr>clockSkewSeconds = Num (- (1 / 2097152))\<rparr>"
    using d by (simp only: sample_floors sample_times) simp
  show ?thesis using a b c by blast
qed

section \<open>Properties of splitTextByByteLength\<close>

lemma split_whitespace_word:
  "list_all (\<lambda>c. \<not> whitespace c) w \<Longrightarrow> split_whitespace w = [w]"
proof -
  assume "list_all (\<lambda>c. \<not> whitespace c) w"
  then have "takeWhile (\<lambda>c. \<not> whitespace c) w = w" "dropWhile (\<lambda>c. \<not> whitespace c) w = []"
    by (simp_all add: list_all_iff)
  then show ?thesis by (subst split_whitespace.simps) simp
qed

lemma trim_word:
  "list_all (\<lambda>c. \<not> whitespace c) w \<Longrightarrow> trim w = w"
proof -
  assume w: "list_all (\<lambda>c. \<not> whitespace c) w"
  have "dropWhile whitespace w = w"
    using w by (cases w) simp_all
  moreover have "dropWhile whitespace (rev w) = rev w"
    using w by (cases "rev w") (auto simp: list_all_iff dest: arg_cong [where f = set])
  ultimately show ?thesis by (simp add: trim_def)
qed

lemma b_not_whitespace: "\<not> whitespace 98" "whitespace 32" "\<not> whitespace 97"
  by (simp_all add: whitespace_def)

lemma split_whitespace_a_bs:
  assumes "0 < m"
  shows "split_whitespace (97 # 32 # replicate m 98) = [[97], [32], replicate m 98]"
proof -
  have r: "replicate m 98 = 98 # replicate (m - 1) (98::nat)"
    using assms by (cases m) simp_all
  have w: "split_whitespace (replicate m 98) = [replicate m 98]"
    by (rule split_whitespace_word) (simp add: list_all_iff b_not_whitespace)
  have "takeWhile whitespace (replicate m 98) = []" "dropWhile whitespace (replicate m 98) = replicate m 98"
    by (subst r, simp add: b_not_whitespace)+
  then show ?thesis
    by (subst split_whitespace.simps) (simp add: b_not_whitespace w)
qed

lemma oversized_word_kept:
  assumes n: "2 \<le> n" and m: "n < m"
  shows "splitTextByByteLength (97 # 32 # replicate m 98) n = Some [[97], replicate m 98]"
proof -
  let ?w = "replicate m (98::nat)"
  have wl: "list_all (\<lambda>c. \<not> whitespace c) ?w"
    by (simp add: list_all_iff b_not_whitespace)
  have e1: "length (TextEncoder_encode [97]) = 1" "length (TextEncoder_encode [97, 32]) = 2"
    by (simp_all add: TextEncoder_encode_def encode_code_point_def)
  have "TextEncoder_encode ([97, 32] @ ?w) = map word_of_nat ([97, 32] @ ?w)"
    by (rule encode_ascii) (simp add: list_all_iff)
  then have e2: "length (TextEncoder_encode (97 # 32 # ?w)) = m + 2"
    by simp
  have t: "trim [97, 32] = [97]"
    by (simp add: trim_def b_not_whitespace)
  have loop: "split_loop n [[97], [32], ?w] [] [] = Some ([[97]], ?w)"
    using n m by (simp add: e1 e2 t)
  have tw: "trim ?w = ?w" by (rule trim_word [OF wl])
  have ne: "?w \<noteq> []" using m by auto
  have sw: "split_whitespace (97 # 32 # ?w) = [[97], [32], ?w]"
    using m by (intro split_whitespace_a_bs) simp
  show ?thesis
    unfolding splitTextByByteLength_def sw loop using tw ne by simp
qed

lemma split_a_bs:
  "splitTextByByteLength (ascii ''a '' @ replicate 4097 98) 4096 =
     Some [ascii ''a'', replicate 4097 98] \<and>
   length (TextEncoder_encode (replicate 4097 98)) = 4097"
proof -
  have "TextEncoder_encode (replicate 4097 98) = map word_of_nat (replicate 4097 98)"
    by (rule encode_ascii) (simp add: list_all_iff)
  then show ?thesis
    using oversized_word_kept [of 4096 4097] by (simp add: ascii_def)
qed

lemma encode_replicate:
  "TextEncoder_encode (replicate k c) = concat (replicate k (encode_code_point c))"
  by (simp add: TextEncoder_encode_def map_replicate_const)

lemma encode_20013: "encode_code_point 20013 = [228, 184, 173]"
  by (simp add: encode_code_point_def)

lemma utf8_decode_20013:
  "utf8_decode 0 0 128 191 (228 # 184 # 173 # bytes) = 20013 # utf8_decode 0 0 128 191 bytes"
  by simp

lemma utf8_decode_replicate_20013:
  "utf8_decode 0 0 128 191 (concat (replicate k [228, 184, 173]) @ bytes) =
     replicate k 20013 @ utf8_decode 0 0 128 191 bytes"
  by (induction k) (simp_all del: utf8_decode.simps add: utf8_decode_20013)

lemma decode_replicate_20013:
  "TextDecoder_decode (concat (replicate (Suc k) [228, 184, 173]) @ [228]) =
     replicate (Suc k) 20013 @ [65533]"
proof -
  have "take 3 (concat (replicate (Suc k) [228, 184, 173 :: byte]) @ [228]) \<noteq> [239, 187, 191]"
    by simp
  then have "TextDecoder_decode (concat (replicate (Suc k) [228, 184, 173]) @ [228]) =
      utf8_decode 0 0 128 191 (concat (replicate (Suc k) [228, 184, 173]) @ [228])"
    unfolding TextDecoder_decode_def by (simp only: if_False)
  also have "\<dots> = replicate (Suc k) 20013 @ utf8_decode 0 0 128 191 [228]"
    by (rule utf8_decode_replicate_20013)
  finally show ?thesis by simp
qed

lemma byte_slices_Nil: "byte_slices n [] = []"
  by (subst byte_slices.simps) simp

lemma byte_slices_two:
  assumes "0 < n" "n < length bytes" "length bytes \<le> 2 * n"
  shows "byte_slices n bytes = [take n bytes, drop n bytes]"
proof -
  have 1: "byte_slices n bytes = take n bytes # byte_slices n (drop n bytes)"
    using assms by (subst byte_slices.simps) auto
  have 2: "byte_slices n (drop n bytes) = take n (drop n bytes) # byte_slices n (drop n (drop n bytes))"
    using assms by (subst byte_slices.simps) auto
  have "drop n (drop n bytes) = []" using assms by simp
  then have 3: "byte_slices n (drop n (drop n bytes)) = []"
    by (subst byte_slices.simps) simp
  show ?thesis using assms by (simp add: 1 2 byte_slices_Nil)
qed

lemma cut_4096:
  "take 4096 (concat (replicate 1366 [228, 184, 173 :: byte])) =
     concat (replicate 1365 [228, 184, 173]) @ [228]"
  "drop 4096 (concat (replicate 1366 [228, 184, 173 :: byte])) = [184, 173]"
proof -
  let ?x = "[228, 184, 173 :: byte]"
  have "replicate (Suc 1365) ?x = replicate 1365 ?x @ [?x]"
    by (simp only: replicate_Suc replicate_append_same)
  moreover have "Suc 1365 = 1366" by simp
  ultimately have "replicate 1366 ?x = replicate 1365 ?x @ [?x]"
    by (simp only:)
  then have c: "concat (replicate 1366 ?x) = concat (replicate 1365 ?x) @ ?x"
    by simp
  have l: "length (concat (replicate 1365 ?x)) = 4095"
    by (simp add: length_concat sum_list_replicate)
  show "take 4096 (concat (replicate 1366 ?x)) = concat (replicate 1365 ?x) @ [228]"
    unfolding c by (simp add: l)
  show "drop 4096 (concat (replicate 1366 ?x)) = [184, 173]"
    unfolding c by (simp add: l)
qed

lemma split_cjk:
  "splitTextByByteLength (replicate 1366 20013) 4096 =
     Some [replicate 1365 20013 @ [65533], [65533, 65533]] \<and>
   \<not> reproduces (replicate 1366 20013) [replicate 1365 20013 @ [65533], [65533, 65533]]"
proof -
  let ?w = "replicate 1366 (20013::nat)"
  let ?x = "[228, 184, 173 :: byte]"
  have nw: "\<not> whitespace 20013" "\<not> whitespace 65533"
    by (simp_all add: whitespace_def)
  have sw: "split_whitespace ?w = [?w]"
    by (rule split_whitespace_word) (simp add: list_all_iff nw)
  have e: "TextEncoder_encode ?w = concat (replicate 1366 ?x)"
    by (simp add: encode_replicate encode_20013)
  have l: "length (concat (replicate 1366 ?x)) = 4098"
    by (simp add: length_concat sum_list_replicate)
  have bs: "byte_slices 4096 (concat (replicate 1366 ?x)) =
      [concat (replicate 1365 ?x) @ [228], [184, 173]]"
    using byte_slices_two [of 4096 "concat (replicate 1366 ?x)"] l by (simp add: cut_4096)
  have d1: "TextDecoder_decode (concat (replicate 1365 ?x) @ [228]) = replicate 1365 20013 @ [65533]"
    using decode_replicate_20013 [of 1364] by simp
  have d2: "TextDecoder_decode [184, 173] = [65533, 65533]"
    by (simp add: TextDecoder_decode_def)
  have ne: "concat (replicate 1366 ?x) \<noteq> []"
    using l by auto
  have fs: "force_split 4096 (TextEncoder_encode ?w) =
      Some [replicate 1365 20013 @ [65533], [65533, 65533]]"
    by (simp add: force_split_def e bs d1 d2)
  have "?w \<noteq> []" by simp
  have loop: "split_loop 4096 [?w] [] [] =
      Some ([replicate 1365 20013 @ [65533], [65533, 65533]], [])"
    using fs l by (simp add: e)
  have split: "splitTextByByteLength ?w 4096 =
      Some [replicate 1365 20013 @ [65533], [65533, 65533]]"
    unfolding splitTextByByteLength_def sw loop by (simp add: trim_def)
  have "length (filter (\<lambda>c. \<not> whitespace c) (concat [replicate 1365 20013 @ [65533], [65533, 65533]])) = 1368"
    by (simp add: nw)
  moreover have "length (filter (\<lambda>c. \<not> whitespace c) ?w) = 1366"
    by (simp add: nw)
  ultimately have "\<not> reproduces ?w [replicate 1365 20013 @ [65533], [65533, 65533]]"
    unfolding reproduces_def by (metis numeral_eq_iff semiring_norm(88) semiring_norm(89) semiring_norm(87))
  then show ?thesis using split by simp
qed

lemma replaceAll_absent: "p \<notin> set s \<Longrightarrow> replaceAll [p] rep s = s"
  by (induction s) (auto simp: replaceAll_single)

lemma removeIncompatibleCharacters_kept:
  assumes "list_all (\<lambda>c. c \<notin> set chars_to_remove) s"
  shows "removeIncompatibleCharacters s = s"
proof -
  have "list_all (\<lambda>p. p \<notin> set s) ps \<Longrightarrow>
      foldl (\<lambda>clean_str char. replaceAll [char] [] clean_str) s ps = s" for ps
    by (induction ps) (simp_all add: replaceAll_absent)
  moreover have "list_all (\<lambda>p. p \<notin> set s) chars_to_remove"
    using assms by (auto simp: list_all_iff)
  ultimately show ?thesis by (simp add: removeIncompatibleCharacters_def)
qed

lemma escape_kept:
  assumes "list_all (\<lambda>c. c \<notin> {38, 60, 62, 34, 39}) s"
  shows "escape s = s"
  using assms by (induction s) (simp_all add: escape_Cons entity_def, simp add: escape_def)

lemma new_Communicate_texts:
  assumes "list_all (\<lambda>c. c \<notin> set chars_to_remove) text" "list_all (\<lambda>c. c \<noteq> 39) text"
    and "splitTextByByteLength text 4096 = Some chunks"
  shows "texts (new_Communicate text) = map TextEncoder_encode chunks"
proof -
  have "list_all (\<lambda>c. c \<notin> {38, 60, 62, 34, 39}) text"
    using assms(1,2) by (auto simp: list_all_iff chars_to_remove_def)
  then show ?thesis
    using assms by (simp add: new_Communicate_def removeIncompatibleCharacters_kept escape_kept)
qed

text \<open>With a limit above zero the function returns.\<close>

lemma split_loop_returns:
  "0 < n \<Longrightarrow> \<exists>r. split_loop n ws chunks cur = Some r"
  by (induction ws arbitrary: chunks cur) (simp_all add: Let_def force_split_def)

lemma splitTextByByteLength_returns:
  "0 < n \<Longrightarrow> \<exists>chunks. splitTextByByteLength s n = Some chunks"
  using split_loop_returns [of n "split_whitespace s" "[]" "[]"]
  by (auto simp: splitTextByByteLength_def)

text \<open>
  What does hold of the chunks. A text of ASCII characters is reproduced by its
  chunks, white space apart, whatever the limit: a slice of bytes of such a text
  decodes to the characters it was cut from.
\<close>

lemma concat_split_whitespace: "concat (split_whitespace s) = s"
proof (induction s rule: split_whitespace.induct)
  case (1 t)
  let ?word = "takeWhile (\<lambda>c. \<not> whitespace c) t"
  let ?rest = "dropWhile (\<lambda>c. \<not> whitespace c) t"
  show ?case
  proof (cases "?rest = []")
    case True
    then have "?word = t" by (metis append_Nil2 takeWhile_dropWhile_id)
    then show ?thesis using True by (subst split_whitespace.simps) simp
  next
    case False
    have "concat (split_whitespace (dropWhile whitespace ?rest)) = dropWhile whitespace ?rest"
      using 1 [OF refl refl False] .
    then have "concat (split_whitespace t) =
        ?word @ takeWhile whitespace ?rest @ dropWhile whitespace ?rest"
      using False by (subst split_whitespace.simps) (simp add: Let_def)
    then show ?thesis by simp
  qed
qed


lemma filter_dropWhile: "filter (\<lambda>c. \<not> P c) (dropWhile P xs) = filter (\<lambda>c. \<not> P c) xs"
  by (induction xs) simp_all


lemma filter_trim: "filter (\<lambda>c. \<not> whitespace c) (trim s) = filter (\<lambda>c. \<not> whitespace c) s"
  by (simp add: trim_def filter_dropWhile flip: rev_filter)


lemma utf8_decode_ascii:
  "list_all (\<lambda>c. c < 128) xs \<Longrightarrow> utf8_decode 0 0 128 191 (map word_of_nat xs) = xs"
  by (induction xs) (simp_all add: unat_of_nat)


lemma decode_ascii:
  assumes "list_all (\<lambda>c. c < 128) xs"
  shows "TextDecoder_decode (map word_of_nat xs) = xs"
proof -
  have "take 3 (map word_of_nat xs :: byte list) \<noteq> [239, 187, 191]"
  proof (cases xs)
    case Nil
    then show ?thesis by simp
  next
    case (Cons x xs')
    then have "x < 128" using assms by simp
    then have "unat (word_of_nat x :: byte) \<noteq> 239" by (simp add: unat_of_nat)
    then have "(word_of_nat x :: byte) \<noteq> 239" by auto
    then show ?thesis using Cons by auto
  qed
  then show ?thesis using assms by (simp add: TextDecoder_decode_def utf8_decode_ascii)
qed


lemma byte_slices_concat: "0 < n \<Longrightarrow> concat (byte_slices n bytes) = bytes"
  by (induction n bytes rule: byte_slices.induct) (subst byte_slices.simps, simp)


lemma byte_slices_length:
  "list_all (\<lambda>slice. length slice \<le> n) (byte_slices n bytes)"
  by (induction n bytes rule: byte_slices.induct) (subst byte_slices.simps, simp)


lemma decode_slices_ascii:
  "0 < n \<Longrightarrow> list_all (\<lambda>c. c < 128) xs \<Longrightarrow>
   concat (map TextDecoder_decode (byte_slices n (map word_of_nat xs))) = xs"
proof (induction "length xs" arbitrary: xs rule: less_induct)
  case less
  show ?case
  proof (cases "xs = []")
    case True
    then show ?thesis by (subst byte_slices.simps) simp
  next
    case False
    have a: "list_all (\<lambda>c. c < 128) (take n xs)" "list_all (\<lambda>c. c < 128) (drop n xs)"
      using less.prems(2) by (auto simp: list_all_iff dest: in_set_takeD in_set_dropD)
    have "length (drop n xs) < length xs" using False less.prems(1) by simp
    then have "concat (map TextDecoder_decode (byte_slices n (map word_of_nat (drop n xs)))) = drop n xs"
      using less.hyps less.prems(1) a(2) by blast
    then show ?thesis
      using False less.prems(1) a(1)
      by (subst byte_slices.simps) (simp add: take_map drop_map decode_ascii)
  qed
qed


lemma split_loop_reproduces:
  assumes "0 < n" "list_all (\<lambda>c. c < 128) (concat ws)"
    and "split_loop n ws chunks cur = Some (chunks', cur')"
  shows "filter (\<lambda>c. \<not> whitespace c) (concat chunks' @ cur') =
         filter (\<lambda>c. \<not> whitespace c) (concat chunks @ cur @ concat ws)"
  using assms
proof (induction ws arbitrary: chunks cur)
  case Nil
  then show ?case by simp
next
  case (Cons w ws)
  have aw: "list_all (\<lambda>c. c < 128) w" and aws: "list_all (\<lambda>c. c < 128) (concat ws)"
    using Cons.prems(2) by simp_all
  show ?case
  proof (cases "length (TextEncoder_encode (cur @ w)) \<le> n")
    case True
    then have "split_loop n ws chunks (cur @ w) = Some (chunks', cur')"
      using Cons.prems(3) by simp
    then have "filter (\<lambda>c. \<not> whitespace c) (concat chunks' @ cur') =
        filter (\<lambda>c. \<not> whitespace c) (concat chunks @ (cur @ w) @ concat ws)"
      by (rule Cons.IH [OF Cons.prems(1) aws])
    then show ?thesis by simp
  next
    case False
    show ?thesis
    proof (cases "cur = []")
      case c: False
      then have "split_loop n ws (chunks @ [trim cur]) w = Some (chunks', cur')"
        using Cons.prems(3) False by simp
      then have "filter (\<lambda>c. \<not> whitespace c) (concat chunks' @ cur') =
          filter (\<lambda>c. \<not> whitespace c) (concat (chunks @ [trim cur]) @ w @ concat ws)"
        by (rule Cons.IH [OF Cons.prems(1) aws])
      then show ?thesis by (simp add: filter_trim)
    next
      case True
      have fs: "force_split n (TextEncoder_encode w) =
          Some (map TextDecoder_decode (byte_slices n (map word_of_nat w)))"
        using Cons.prems(1) aw by (simp add: force_split_def encode_ascii)
      then have "split_loop n ws (chunks @ map TextDecoder_decode (byte_slices n (map word_of_nat w))) []
          = Some (chunks', cur')"
        using Cons.prems(3) False True by simp
      then have "filter (\<lambda>c. \<not> whitespace c) (concat chunks' @ cur') =
          filter (\<lambda>c. \<not> whitespace c)
            (concat (chunks @ map TextDecoder_decode (byte_slices n (map word_of_nat w))) @ []
               @ concat ws)"
        by (rule Cons.IH [OF Cons.prems(1) aws])
      then show ?thesis
        using True by (simp add: decode_slices_ascii [OF Cons.prems(1) aw])
    qed
  qed
qed

lemma split_reproduces_ascii:
  assumes "0 < n" "list_all (\<lambda>c. c < 128) text"
  shows "\<exists>chunks. splitTextByByteLength text n = Some chunks \<and> reproduces text chunks"
proof -
  obtain chunks cur where l: "split_loop n (split_whitespace text) [] [] = Some (chunks, cur)"
    using split_loop_returns [OF assms(1), of "split_whitespace text" "[]" "[]"] by auto
  have f: "filter (\<lambda>c. \<not> whitespace c) (concat chunks @ cur) = filter (\<lambda>c. \<not> whitespace c) text"
    using split_loop_reproduces [OF assms(1) _ l] assms(2) by (simp add: concat_split_whitespace)
  have "reproduces text (if trim cur \<noteq> [] then chunks @ [trim cur] else chunks)"
    unfolding reproduces_def
  proof (cases "trim cur = []")
    case True
    then have "filter (\<lambda>c. \<not> whitespace c) cur = []"
      using filter_trim [of cur] by simp
    then show "filter (\<lambda>c. \<not> whitespace c)
        (concat (if trim cur \<noteq> [] then chunks @ [trim cur] else chunks)) =
        filter (\<lambda>c. \<not> whitespace c) text"
      using True f by simp
  next
    case False
    then show "filter (\<lambda>c. \<not> whitespace c)
        (concat (if trim cur \<noteq> [] then chunks @ [trim cur] else chunks)) =
        filter (\<lambda>c. \<not> whitespace c) text"
      using f by (simp add: filter_trim)
  qed
  then show ?thesis by (simp add: splitTextByByteLength_def l)
qed

text \<open>
  And when no run of the text, of white space or without, is longer than the limit
  on its own, no chunk is longer than the limit.
\<close>

lemma encode_append:
  "TextEncoder_encode (xs @ ys) = TextEncoder_encode xs @ TextEncoder_encode ys"
  by (simp add: TextEncoder_encode_def)


lemma length_encode_rev: "length (TextEncoder_encode (rev s)) = length (TextEncoder_encode s)"
  by (induction s) (simp_all add: encode_append, simp_all add: TextEncoder_encode_def)


lemma length_encode_dropWhile:
  "length (TextEncoder_encode (dropWhile P s)) \<le> length (TextEncoder_encode s)"
proof -
  have "TextEncoder_encode s =
      TextEncoder_encode (takeWhile P s) @ TextEncoder_encode (dropWhile P s)"
    by (simp flip: encode_append)
  then show ?thesis by simp
qed


lemma length_encode_trim: "length (TextEncoder_encode (trim s)) \<le> length (TextEncoder_encode s)"
proof -
  have "length (TextEncoder_encode (trim s)) =
      length (TextEncoder_encode (dropWhile whitespace (rev (dropWhile whitespace s))))"
    by (simp add: trim_def length_encode_rev)
  also have "\<dots> \<le> length (TextEncoder_encode (rev (dropWhile whitespace s)))"
    by (rule length_encode_dropWhile)
  also have "\<dots> \<le> length (TextEncoder_encode s)"
    by (simp add: length_encode_rev length_encode_dropWhile)
  finally show ?thesis .
qed


lemma split_loop_within_limit:
  assumes "list_all (\<lambda>w. length (TextEncoder_encode w) \<le> n) ws"
    and "list_all (\<lambda>c. length (TextEncoder_encode c) \<le> n) chunks"
    and "length (TextEncoder_encode cur) \<le> n"
    and "split_loop n ws chunks cur = Some (chunks', cur')"
  shows "list_all (\<lambda>c. length (TextEncoder_encode c) \<le> n) chunks' \<and>
         length (TextEncoder_encode cur') \<le> n"
  using assms
proof (induction ws arbitrary: chunks cur)
  case Nil
  then show ?case by simp
next
  case (Cons w ws)
  have w: "length (TextEncoder_encode w) \<le> n"
    and ws: "list_all (\<lambda>w. length (TextEncoder_encode w) \<le> n) ws"
    using Cons.prems(1) by simp_all
  show ?case
  proof (cases "length (TextEncoder_encode (cur @ w)) \<le> n")
    case True
    then have "split_loop n ws chunks (cur @ w) = Some (chunks', cur')"
      using Cons.prems(4) by simp
    then show ?thesis by (rule Cons.IH [OF ws Cons.prems(2) True])
  next
    case False
    then have c: "cur \<noteq> []" using w by auto
    then have l: "split_loop n ws (chunks @ [trim cur]) w = Some (chunks', cur')"
      using Cons.prems(4) False by simp
    have "length (TextEncoder_encode (trim cur)) \<le> n"
      using length_encode_trim [of cur] Cons.prems(3) by simp
    then have "list_all (\<lambda>c. length (TextEncoder_encode c) \<le> n) (chunks @ [trim cur])"
      using Cons.prems(2) by simp
    then show ?thesis using l by (rule Cons.IH [OF ws _ w])
  qed
qed


lemma chunks_within_limit:
  assumes "list_all (\<lambda>w. length (TextEncoder_encode w) \<le> n) (split_whitespace s)"
    and "splitTextByByteLength s n = Some chunks"
  shows "list_all (\<lambda>c. length (TextEncoder_encode c) \<le> n) chunks"
proof -
  obtain cs cur where l: "split_loop n (split_whitespace s) [] [] = Some (cs, cur)"
    using assms(2) by (auto simp: splitTextByByteLength_def split: option.splits)
  have "list_all (\<lambda>c. length (TextEncoder_encode c) \<le> n) cs \<and>
      length (TextEncoder_encode cur) \<le> n"
    using split_loop_within_limit [OF assms(1) _ _ l] by (simp add: TextEncoder_encode_def)
  moreover have "length (TextEncoder_encode (trim cur)) \<le> length (TextEncoder_encode cur)"
    by (rule length_encode_trim)
  moreover have "chunks = (if trim cur \<noteq> [] then cs @ [trim cur] else cs)"
    using assms(2) l by (simp add: splitTextByByteLength_def)
  ultimately show ?thesis by auto
qed

text \<open>
  Claim C5 says that the chunks reproduce the text, white space apart. The code
  does not: of a text of 1366 times the character U+4E2D, without white space and
  4098 bytes long, the session makes two chunks, cutting the last character after
  its first byte. The first chunk ends with U+FFFD, the second is U+FFFD twice, and
  the last character of the text is in neither.
\<close>

theorem split_cuts_character:
  "texts (new_Communicate (replicate 1366 20013)) =
     map TextEncoder_encode [replicate 1365 20013 @ [65533], [65533, 65533]] \<and>
   splitTextByByteLength (replicate 1366 20013) 4096 =
     Some [replicate 1365 20013 @ [65533], [65533, 65533]] \<and>
   \<not> reproduces (replicate 1366 20013) [replicate 1365 20013 @ [65533], [65533, 65533]]"
proof -
  have "texts (new_Communicate (replicate 1366 20013)) =
      map TextEncoder_encode [replicate 1365 20013 @ [65533], [65533, 65533]]"
    using split_cjk
    by (intro new_Communicate_texts) (simp_all add: list_all_iff chars_to_remove_def)
  then show ?thesis using split_cjk by simp
qed

text \<open>
  Claim C6 says that a word longer than the limit is cut into slices of at most the
  limit. The code does not cut a word that follows other text: of the text "a"
  followed by a space and 4097 times "b" the session makes the chunks "a" and the
  whole word, of 4097 bytes.
\<close>

theorem split_keeps_oversized_word:
  "texts (new_Communicate (ascii ''a '' @ replicate 4097 98)) =
     map TextEncoder_encode [ascii ''a'', replicate 4097 98] \<and>
   splitTextByByteLength (ascii ''a '' @ replicate 4097 98) 4096 =
     Some [ascii ''a'', replicate 4097 98] \<and>
   length (TextEncoder_encode (replicate 4097 98)) = 4097"
proof -
  have "texts (new_Communicate (ascii ''a '' @ replicate 4097 98)) =
      map TextEncoder_encode [ascii ''a'', replicate 4097 98]"
    using split_a_bs
    by (intro new_Communicate_texts) (auto simp: list_all_iff chars_to_remove_def ascii_def)
  then show ?thesis using split_a_bs by simp
qed

text \<open>
  A slice that ends inside a character, decoded and encoded again for the request,
  is longer than the limit: here 1365 characters of three bytes and U+FFFD.
\<close>

lemma cut_chunk_length:
  "length (TextEncoder_encode (replicate 1365 20013 @ [65533])) = 4098"
  by (simp add: TextEncoder_encode_def encode_20013 length_concat sum_list_replicate
      encode_code_point_def comp_def)

section \<open>Properties of parseMetadata\<close>

lemma scanMetadata_skip:
  "list_all (\<lambda>m. Type m = ascii ''SessionEnd'') skipped \<Longrightarrow>
   scanMetadata st (skipped @ rest) = scanMetadata st rest"
  by (induction skipped) (auto simp: ascii_def)

text \<open>
  Claim C2. Let the payload of a metadata frame parse to a list of entries that
  starts with entries of type \<^verbatim>\<open>SessionEnd\<close>, \<open>skipped\<close>. These are passed over. If
  nothing follows them, no \<^verbatim>\<open>WordBoundary\<close> entry has been found and the call raises
  \<open>UnexpectedResponse\<close>. If the entry that follows is of type \<^verbatim>\<open>WordBoundary\<close>, the
  first of that type, the call returns an event with the offset of the entry plus
  \<open>offsetCompensation\<close>, its duration and its text unescaped. If it is of any other
  type, the call raises \<open>UnknownResponse\<close>.
\<close>

theorem parseMetadata_scan:
  assumes "JSON_parse (TextDecoder_decode bytes) = Some (skipped @ rest)"
    and "list_all (\<lambda>m. Type m = ascii ''SessionEnd'') skipped"
  shows "case rest of
           [] \<Rightarrow> parseMetadata JSON_parse st bytes = Inl UnexpectedResponse
         | m # others \<Rightarrow>
             if Type m = ascii ''WordBoundary'' then
               parseMetadata JSON_parse st bytes =
                 Inr (WordBoundary (Offset m + offsetCompensation st) (Duration m)
                        (unescape (Text m)))
             else if Type m = ascii ''SessionEnd'' then
               parseMetadata JSON_parse st bytes = scanMetadata st others
             else parseMetadata JSON_parse st bytes = Inl UnknownResponse"
proof -
  have "parseMetadata JSON_parse st bytes = scanMetadata st rest"
    using assms by (simp add: parseMetadata_def scanMetadata_skip)
  then show ?thesis
    by (cases rest) (simp_all add: ascii_def)
qed

theorem parseMetadata_scan_witness:
  "parseMetadata sample_parser
     \<lparr>partialText = [], offsetCompensation = 1000, lastDurationOffset = 1000,
      streamWasCalled = True\<rparr>
     [77] = Inr (WordBoundary 1500 200 (ascii ''a&b''))"
  using parseMetadata_scan [of sample_parser "[77]"
      "[\<lparr>Type = ascii ''SessionEnd'', Offset = 0, Duration = 0, Text = []\<rparr>]"
      "[\<lparr>Type = ascii ''WordBoundary'', Offset = 500, Duration = 200, Text = ascii ''a&amp;b''\<rparr>,
        \<lparr>Type = ascii ''Other'', Offset = 0, Duration = 0, Text = []\<rparr>]"
      "\<lparr>partialText = [], offsetCompensation = 1000, lastDurationOffset = 1000,
        streamWasCalled = True\<rparr>"]
  by (simp add: sample_parser_def TextDecoder_decode_def ascii_def unescape_def)

section \<open>Properties of processBinaryData\<close>

lemma frame_other_type_empty_headers:
  "fst (headers_and_data frame_other_type_empty) (ascii ''Path'') = Some (ascii ''audio'')"
  "fst (headers_and_data frame_other_type_empty) (ascii ''Content-Type'') = Some (ascii ''audio/x'')"
  "snd (headers_and_data frame_other_type_empty) = []"
  by (simp_all add: frame_other_type_empty_def headers_and_data_def TextDecoder_decode_def
      header_lines_def header_line_def ascii_def trim_def whitespace_def)

text \<open>
  Claim C3 as stated fails: a frame with the path \<^verbatim>\<open>audio\<close>, a content type other
  than \<^verbatim>\<open>audio/mpeg\<close> and an empty payload puts nothing into the queue, neither an
  error nor an audio chunk.
\<close>

theorem processBinaryData_other_type_empty:
  "fst (headers_and_data frame_other_type_empty) (ascii ''Path'') = Some (ascii ''audio'') \<and>
   fst (headers_and_data frame_other_type_empty) (ascii ''Content-Type'') = Some (ascii ''audio/x'') \<and>
   snd (headers_and_data frame_other_type_empty) = [] \<and>
   processBinaryData [] frame_other_type_empty = []"
  by (simp add: frame_other_type_empty_headers processBinaryData_def)
     (simp add: frame_other_type_empty_def ascii_def)

text \<open>
  Claim C3, amended. For a binary frame with the path \<^verbatim>\<open>audio\<close>: with a content type
  other than \<^verbatim>\<open>audio/mpeg\<close>, a payload that is not empty fails with
  \<open>UnexpectedResponse\<close> and an empty payload is passed over, leaving the queue as it
  is; with the content type \<^verbatim>\<open>audio/mpeg\<close>, an empty payload fails with
  \<open>UnexpectedResponse\<close> and any other payload is emitted as an audio chunk.
\<close>

theorem processBinaryData_audio:
  assumes "2 \<le> length frame"
    and "fst (headers_and_data frame) (ascii ''Path'') = Some (ascii ''audio'')"
  shows "processBinaryData messageQueue frame =
     (if fst (headers_and_data frame) (ascii ''Content-Type'') \<noteq> Some (ascii ''audio/mpeg'')
      then (if snd (headers_and_data frame) \<noteq> []
            then messageQueue @ [Failure UnexpectedResponse]
            else messageQueue)
      else (if snd (headers_and_data frame) = []
            then messageQueue @ [Failure UnexpectedResponse]
            else messageQueue @ [Chunk (Audio (snd (headers_and_data frame)))]))"
  using assms by (simp add: processBinaryData_def Let_def)

theorem processBinaryData_audio_witness:
  "processBinaryData [] frame_mpeg = [Chunk (Audio [255, 251, 144])]"
proof -
  have h: "fst (headers_and_data frame_mpeg) (ascii ''Path'') = Some (ascii ''audio'')"
    "fst (headers_and_data frame_mpeg) (ascii ''Content-Type'') = Some (ascii ''audio/mpeg'')"
    "snd (headers_and_data frame_mpeg) = [255, 251, 144]"
    by (simp_all add: frame_mpeg_def headers_and_data_def TextDecoder_decode_def
        header_lines_def header_line_def ascii_def trim_def whitespace_def)
  have l: "2 \<le> length frame_mpeg" by (simp add: frame_mpeg_def)
  show ?thesis
    using processBinaryData_audio [OF l h(1), of "[]"] by (simp add: h)
qed

section \<open>Properties of handleClientResponseError\<close>

text \<open>
  \<open>parseRfc2616Date\<close> never gives \<^verbatim>\<open>null\<close>, so the second \<^verbatim>\<open>throw\<close> is never reached:
  the function raises exactly when the header is absent or empty.
\<close>

lemma handleClientResponseError_raises:
  "(\<exists>e. handleClientResponseError Date_getTime now drm response = Inl e) =
   (serverDate response = None \<or> serverDate response = Some [])"
  by (auto simp: handleClientResponseError_def parseRfc2616Date_def split: option.splits)

lemma handleClientResponseError_parsed:
  "handleClientResponseError sample_getTime 1767225590000 \<lparr>clockSkewSeconds = Num 0\<rparr>
     (Some (PlainObject [ascii ''date'' \<mapsto> ascii ''Thu, 01 Jan 2026 00:00:00 GMT''])) =
   Inr \<lparr>clockSkewSeconds = Num 10\<rparr>"
  by (simp add: sample_getTime_def handleClientResponseError_def parseRfc2616Date_def
      adjClockSkewSeconds_def getUnixTimestamp_def ascii_def fl_numeral)

text \<open>
  Claim C7 says that a header that cannot be parsed raises \<open>SkewAdjustmentError\<close>.
  The code does not: for the header \<^verbatim>\<open>date: not a date\<close> the parsed time is \<open>NaN\<close>,
  no error is raised, and the clock skew becomes \<open>NaN\<close>.
\<close>

theorem handleClientResponseError_unparsable:
  "sample_getTime (ascii ''not a date'') = NaN \<and>
   handleClientResponseError sample_getTime 1767225600000 \<lparr>clockSkewSeconds = Num 0\<rparr>
     (Some (PlainObject [ascii ''date'' \<mapsto> ascii ''not a date''])) =
   Inr \<lparr>clockSkewSeconds = NaN\<rparr>"
  by (simp add: sample_getTime_def handleClientResponseError_def parseRfc2616Date_def
      adjClockSkewSeconds_def ascii_def)

section \<open>Properties of handleMessage\<close>

lemma boundaries_append: "boundaries (q @ q') = boundaries q @ boundaries q'"
  by (induction q rule: boundaries.induct) simp_all

lemma last_end_Nil: "last_end ldo [] = ldo"
  by (simp add: last_end_def)

lemma last_end_append: "last_end ldo (q @ q') = last_end (last_end ldo q) q'"
  by (simp add: last_end_def boundaries_append split: list.splits)

lemma text_path_Nil: "text_path [] = None"
  by (simp add: text_path_def isomorphicGetHeadersAndDataFromText_def TextEncoder_encode_def
      TextDecoder_decode_def)

lemma scanMetadata_WordBoundary:
  "scanMetadata st metadata = Inr c \<Longrightarrow>
   \<exists>m \<in> set metadata. c = WordBoundary (Offset m + offsetCompensation st) (Duration m) (unescape (Text m))"
  by (induction metadata) (auto split: if_splits)

lemma step_ok_refl: "step_ok P sq sq"
  by (auto simp: step_ok_def last_end_Nil intro!: exI[of _ "[]"])

lemma step_ok_push:
  "boundaries [x] = [] \<Longrightarrow> step_ok P sq (fst sq, snd sq @ [x])"
  by (auto simp: step_ok_def last_end_def intro!: exI[of _ "[x]"])

lemma step_ok_trans:
  assumes "step_ok P sq sq'" "step_ok P sq' sq''"
  shows "step_ok P sq sq''"
proof -
  obtain n1 where n1: "snd sq' = snd sq @ n1"
    "lastDurationOffset (fst sq') = last_end (lastDurationOffset (fst sq)) n1"
    "nonnegative P \<longrightarrow> offsetCompensation (fst sq) \<le> lastDurationOffset (fst sq) \<longrightarrow>
           offsetCompensation (fst sq) \<le> offsetCompensation (fst sq') \<and>
           offsetCompensation (fst sq') \<le> lastDurationOffset (fst sq') \<and>
           (\<forall>b \<in> set (boundaries n1). offsetCompensation (fst sq) \<le> offset b)"
    using assms(1) unfolding step_ok_def by blast
  obtain n2 where n2: "snd sq'' = snd sq' @ n2"
    "lastDurationOffset (fst sq'') = last_end (lastDurationOffset (fst sq')) n2"
    "nonnegative P \<longrightarrow> offsetCompensation (fst sq') \<le> lastDurationOffset (fst sq') \<longrightarrow>
           offsetCompensation (fst sq') \<le> offsetCompensation (fst sq'') \<and>
           offsetCompensation (fst sq'') \<le> lastDurationOffset (fst sq'') \<and>
           (\<forall>b \<in> set (boundaries n2). offsetCompensation (fst sq') \<le> offset b)"
    using assms(2) unfolding step_ok_def by blast
  show ?thesis
    unfolding step_ok_def
  proof (intro exI[of _ "n1 @ n2"] conjI impI)
    show "snd sq'' = snd sq @ n1 @ n2" using n1 n2 by simp
    show "lastDurationOffset (fst sq'') = last_end (lastDurationOffset (fst sq)) (n1 @ n2)"
      using n1 n2 by (simp add: last_end_append)
  next
    assume "nonnegative P" "offsetCompensation (fst sq) \<le> lastDurationOffset (fst sq)"
    then show "offsetCompensation (fst sq) \<le> offsetCompensation (fst sq'')"
      "offsetCompensation (fst sq'') \<le> lastDurationOffset (fst sq'')"
      "\<forall>b \<in> set (boundaries (n1 @ n2)). offsetCompensation (fst sq) \<le> offset b"
      using n1(3) n2(3) by (auto simp: boundaries_append)
  qed
qed

lemma handleText_step: "step_ok P sq (handleText P sq s)"
proof (cases "text_path s = Some (ascii ''audio.metadata'')")
  case True
  let ?d = "snd (isomorphicGetHeadersAndDataFromText (TextEncoder_encode s))"
  show ?thesis
  proof (cases "parseMetadata P (fst sq) ?d")
    case (Inl e)
    then show ?thesis using True step_ok_push [of "Failure e" P sq]
      by (simp add: handleText_def Let_def)
  next
    case (Inr c)
    then obtain md where md: "P (TextDecoder_decode ?d) = Some md" "scanMetadata (fst sq) md = Inr c"
      by (auto simp: parseMetadata_def split: option.splits)
    then obtain m where m: "m \<in> set md"
      "c = WordBoundary (Offset m + offsetCompensation (fst sq)) (Duration m) (unescape (Text m))"
      using scanMetadata_WordBoundary by blast
    have nn: "nonnegative P \<Longrightarrow> 0 \<le> Offset m \<and> 0 \<le> Duration m"
      using md(1) m(1) unfolding nonnegative_def by (auto simp: list_all_iff)
    have eq: "handleText P sq s =
        ((fst sq)\<lparr>lastDurationOffset := offset c + duration c\<rparr>, snd sq @ [Chunk c])"
      using True Inr by (simp add: handleText_def Let_def)
    show ?thesis
      unfolding eq step_ok_def using m(2) nn
      by (auto simp: last_end_def intro!: exI[of _ "[Chunk c]"])
  qed
next
  case False
  show ?thesis
  proof (cases "text_path s = Some (ascii ''turn.end'')")
    case True
    have eq: "handleText P sq s = ((fst sq)\<lparr>offsetCompensation := lastDurationOffset (fst sq)\<rparr>, snd sq)"
      using True False by (simp add: handleText_def Let_def)
    show ?thesis unfolding eq step_ok_def
      by (auto simp: last_end_Nil intro!: exI[of _ "[]"])
  next
    case nte: False
    show ?thesis
      using False nte step_ok_refl [of P sq] step_ok_push [of "Failure UnknownResponse" P sq]
      by (auto simp: handleText_def Let_def)
  qed
qed

lemma processBinaryData_push:
  "processBinaryData q bytes = q \<or> (\<exists>x. processBinaryData q bytes = q @ [x] \<and> boundaries [x] = [])"
  by (auto simp: processBinaryData_def Let_def)

lemma handleMessage_step: "step_ok P sq (handleMessage P sq m)"
proof (cases "(P, sq, m)" rule: handleMessage.cases)
  case (1 JSON_parse sq' bufferData isBinary)
  then show ?thesis
    using processBinaryData_push [of "snd sq" bufferData] step_ok_refl [of P sq]
      step_ok_push [of _ P sq]
    by (cases sq) auto
next
  case (2 JSON_parse sq' isBinary)
  then show ?thesis using step_ok_push [of "Failure UnexpectedResponse" P sq] by simp
next
  case (3 JSON_parse sq' s isBinary)
  then show ?thesis
    using step_ok_push [of "Failure UnexpectedResponse" P sq] handleText_step [of P sq s]
    by auto
qed

lemma on_event_step: "step_ok P sq (on_event P sq ev)"
  using handleMessage_step [of P sq] step_ok_refl [of P sq] step_ok_push [of Close P sq]
  by (cases ev) simp_all

lemma on_events_step: "step_ok P sq (on_events P sq evs)"
  unfolding on_events_def
proof (induction evs arbitrary: sq)
  case Nil
  show ?case by (simp add: step_ok_refl)
next
  case (Cons ev evs)
  show ?case
    using step_ok_trans [OF on_event_step [of P sq ev] Cons [of "on_event P sq ev"]] by simp
qed


lemma on_events_append:
  "on_events P sq (events @ events') = on_events P (on_events P sq events) events'"
  by (simp add: on_events_def)

lemma handleMessage_turn_end:
  assumes "text_path s = Some (ascii ''turn.end'')" "isBinary \<noteq> Some True"
  shows "handleMessage P (st, q) (WsMessage (StringData s) isBinary) =
     (st\<lparr>offsetCompensation := lastDurationOffset st\<rparr>, q)"
proof -
  have s: "s \<noteq> []" using assms(1) text_path_Nil by auto
  have ne: "ascii ''turn.end'' \<noteq> ascii ''audio.metadata''" by (simp add: ascii_def)
  show ?thesis using assms s ne by (simp add: handleText_def Let_def)
qed

text \<open>
  A chunk whose events end with a text frame of the path \<^verbatim>\<open>turn.end\<close> and the closing
  of the socket: the state that \<open>stream_chunk\<close> leaves, and what it yields.
\<close>

lemma stream_chunk_turn_end:
  assumes "text_path s = Some (ascii ''turn.end'')" "isBinary \<noteq> Some True"
    and "on_events P (st, []) events = (st1, q1)"
  shows "stream_chunk P st (Inr token)
       (Opened (events @ [OnMessage (WsMessage (StringData s) isBinary), OnClose])) =
     (st1\<lparr>offsetCompensation := lastDurationOffset st1\<rparr>, consume False (q1 @ [Close]))"
  using assms
  by (simp add: on_events_append handleMessage_turn_end on_events_def [of _ _ "[_, _]"]
      del: handleMessage.simps)

text \<open>
  Claim C1. Let a session have at least two chunks of text left, \<open>text_k\<close> and
  \<open>text_k1\<close>. Let the events of the first of them, handled from the state of the
  session with an empty queue, lead to the state \<open>st1\<close> and the queue \<open>q1\<close>, and let
  a text frame with the path \<^verbatim>\<open>turn.end\<close> and the closing of the socket follow, the
  chunk having yielded audio and no error. Then the run of \<open>stream_chunk\<close> for
  \<open>text_k\<close> leaves a state whose \<open>offsetCompensation\<close> is \<open>lastDurationOffset\<close> of
  \<open>st1\<close>, and \<open>stream_loop\<close> handles the events of \<open>text_k1\<close> from that very state:
  what it yields and the state it goes on with are those that the events of
  \<open>text_k1\<close> give from there. That value is the offset plus the duration of the last
  \<^verbatim>\<open>WordBoundary\<close> event that the first chunk has put into the queue (and is what it
  was before the chunk if there was none). When the offsets and durations that the
  service sends are not negative, no \<^verbatim>\<open>WordBoundary\<close> event of \<open>text_k1\<close> has an
  offset below it, and \<open>offsetCompensation\<close> does not decrease.
\<close>

theorem offsetCompensation_carried_over:
  assumes texts: "texts c = text_k # text_k1 # remaining"
    and turn_end: "text_path s = Some (ascii ''turn.end'')"
    and text_frame: "isBinary \<noteq> Some True"
    and chunk_k: "on_events P ((state c)\<lparr>partialText := text_k\<rparr>, []) events = (st1, q1)"
    and returned: "consume False (q1 @ [Close]) = (messages_k, Returned)"
    and chunk_k1:
      "on_events P (st1\<lparr>offsetCompensation := lastDurationOffset st1, partialText := text_k1\<rparr>, [])
         events' = (st3, q3)"
  shows "stream_chunk P ((state c)\<lparr>partialText := text_k\<rparr>) (Inr token)
           (Opened (events @ [OnMessage (WsMessage (StringData s) isBinary), OnClose])) =
         (st1\<lparr>offsetCompensation := lastDurationOffset st1\<rparr>, messages_k, Returned) \<and>
         stream_loop P c
           ((Inr token, Opened (events @ [OnMessage (WsMessage (StringData s) isBinary), OnClose]))
            # (Inr token', Opened events') # outside) =
         (case consume False q3 of
            (messages_k1, Returned) \<Rightarrow>
              (case stream_loop P \<lparr>state = st3, texts = remaining\<rparr> outside of
                 (c', messages, result) \<Rightarrow> (c', messages_k @ messages_k1 @ messages, result))
          | (messages_k1, Threw e) \<Rightarrow>
              (\<lparr>state = st3, texts = []\<rparr>, messages_k @ messages_k1, Threw e)
          | (messages_k1, Waiting) \<Rightarrow>
              (\<lparr>state = st3, texts = remaining\<rparr>, messages_k @ messages_k1, Waiting)) \<and>
         (boundaries q1 \<noteq> [] \<longrightarrow>
            lastDurationOffset st1 =
              offset (last (boundaries q1)) + duration (last (boundaries q1))) \<and>
         (boundaries q1 = [] \<longrightarrow> lastDurationOffset st1 = lastDurationOffset (state c)) \<and>
         (nonnegative P \<longrightarrow>
            lastDurationOffset st1 \<le> offsetCompensation st3 \<and>
            (\<forall>b \<in> set (boundaries q3). lastDurationOffset st1 \<le> offset b))"
proof -
  let ?st2 = "st1\<lparr>offsetCompensation := lastDurationOffset st1\<rparr>"
  let ?ev = "events @ [OnMessage (WsMessage (StringData s) isBinary), OnClose]"
  have k: "stream_chunk P ((state c)\<lparr>partialText := text_k\<rparr>) (Inr token) (Opened ?ev) =
      (?st2, messages_k, Returned)"
    by (simp only: stream_chunk_turn_end [OF turn_end text_frame chunk_k] returned)
  have k1: "stream_chunk P (?st2\<lparr>partialText := text_k1\<rparr>) (Inr token') (Opened events') =
      (st3, consume False q3)"
    using chunk_k1 by simp
  have loop: "stream_loop P c ((Inr token, Opened ?ev) # (Inr token', Opened events') # outside) =
      (case consume False q3 of
         (messages_k1, Returned) \<Rightarrow>
           (case stream_loop P \<lparr>state = st3, texts = remaining\<rparr> outside of
              (c', messages, result) \<Rightarrow> (c', messages_k @ messages_k1 @ messages, result))
       | (messages_k1, Threw e) \<Rightarrow>
           (\<lparr>state = st3, texts = []\<rparr>, messages_k @ messages_k1, Threw e)
       | (messages_k1, Waiting) \<Rightarrow>
           (\<lparr>state = st3, texts = remaining\<rparr>, messages_k @ messages_k1, Waiting))"
    by (simp add: texts k k1 split: prod.splits outcome.splits del: stream_chunk.simps)
  have "step_ok P ((state c)\<lparr>partialText := text_k\<rparr>, []) (st1, q1)"
    using on_events_step [of P "((state c)\<lparr>partialText := text_k\<rparr>, [])" events] chunk_k by simp
  then have ldo: "lastDurationOffset st1 = last_end (lastDurationOffset (state c)) q1"
    by (auto simp: step_ok_def)
  have "step_ok P (?st2\<lparr>partialText := text_k1\<rparr>, []) (st3, q3)"
    using on_events_step [of P "(?st2\<lparr>partialText := text_k1\<rparr>, [])" events'] chunk_k1 by simp
  then have mono: "nonnegative P \<longrightarrow>
      lastDurationOffset st1 \<le> offsetCompensation st3 \<and>
      (\<forall>b \<in> set (boundaries q3). lastDurationOffset st1 \<le> offset b)"
    by (auto simp: step_ok_def)
  have "boundaries q1 \<noteq> [] \<longrightarrow>
      last_end (lastDurationOffset (state c)) q1 =
        offset (last (boundaries q1)) + duration (last (boundaries q1))"
    by (cases "boundaries q1" rule: rev_cases) (simp_all add: last_end_def)
  moreover have "boundaries q1 = [] \<longrightarrow>
      last_end (lastDurationOffset (state c)) q1 = lastDurationOffset (state c)"
    by (simp add: last_end_def)
  ultimately show ?thesis using k loop ldo mono by simp
qed

lemma text_path_turn_end_frame: "text_path turn_end_frame = Some (ascii ''turn.end'')"
  by (simp add: text_path_def turn_end_frame_def isomorphicGetHeadersAndDataFromText_def
      TextEncoder_encode_def encode_code_point_def TextDecoder_decode_def ascii_def
      header_lines_def header_line_def trim_def whitespace_def Let_def)

lemma metadata_frame_parts:
  "text_path metadata_frame = Some (ascii ''audio.metadata'')"
  "snd (isomorphicGetHeadersAndDataFromText (TextEncoder_encode metadata_frame)) = [77]"
  by (simp_all add: text_path_def metadata_frame_def isomorphicGetHeadersAndDataFromText_def
      TextEncoder_encode_def encode_code_point_def TextDecoder_decode_def ascii_def
      header_lines_def header_line_def trim_def whitespace_def Let_def)

lemma nonnegative_sample_parser: "nonnegative sample_parser"
  by (auto simp: nonnegative_def sample_parser_def split: if_splits)

lemma handle_metadata_frame:
  "handleMessage sample_parser (st, q) (WsMessage (StringData metadata_frame) None) =
     (st\<lparr>lastDurationOffset := offsetCompensation st + 700\<rparr>,
      q @ [Chunk (WordBoundary (offsetCompensation st + 500) 200 (ascii ''a&b''))])"
proof -
  have "metadata_frame \<noteq> []" by (simp add: metadata_frame_def)
  moreover have "parseMetadata sample_parser st [77] =
      Inr (WordBoundary (offsetCompensation st + 500) 200 (ascii ''a&b''))"
    by (simp add: parseMetadata_def sample_parser_def TextDecoder_decode_def ascii_def unescape_def)
  ultimately show ?thesis
    by (simp add: handleText_def metadata_frame_parts)
qed

lemma handle_frame_mpeg:
  "handleMessage P (st, q) (WsMessage (BinaryData frame_mpeg) None) =
     (st, q @ [Chunk (Audio [255, 251, 144])])"
proof -
  have h: "fst (headers_and_data frame_mpeg) (ascii ''Path'') = Some (ascii ''audio'')"
    "fst (headers_and_data frame_mpeg) (ascii ''Content-Type'') = Some (ascii ''audio/mpeg'')"
    "snd (headers_and_data frame_mpeg) = [255, 251, 144]"
    by (simp_all add: frame_mpeg_def headers_and_data_def TextDecoder_decode_def
        header_lines_def header_line_def ascii_def trim_def whitespace_def)
  have l: "\<not> length frame_mpeg < 2" by (simp add: frame_mpeg_def)
  show ?thesis by (simp add: processBinaryData_def h l)
qed

text \<open>
  A session of two chunks of text. For each of them the service sends a metadata
  frame, an audio frame and a frame \<^verbatim>\<open>turn.end\<close>, and the socket closes. The
  \<^verbatim>\<open>WordBoundary\<close> event of the first chunk has the offset 500 and ends at 700, and
  the one of the second chunk, which the service sends with the offset 500 as well,
  is yielded with the offset 1200.
\<close>

theorem offsetCompensation_carried_over_witness:
  "stream sample_parser
     \<lparr>state = \<lparr>partialText = [], offsetCompensation = 0, lastDurationOffset = 0,
                streamWasCalled = False\<rparr>,
      texts = [[65], [66]]\<rparr>
     [(Inr [], Opened [OnMessage (WsMessage (StringData metadata_frame) None),
                       OnMessage (WsMessage (BinaryData frame_mpeg) None),
                       OnMessage (WsMessage (StringData turn_end_frame) None), OnClose]),
      (Inr [], Opened [OnMessage (WsMessage (StringData metadata_frame) None),
                       OnMessage (WsMessage (BinaryData frame_mpeg) None),
                       OnMessage (WsMessage (StringData turn_end_frame) None), OnClose])] =
   (\<lparr>state = \<lparr>partialText = [66], offsetCompensation = 1400, lastDurationOffset = 1400,
               streamWasCalled = True\<rparr>,
     texts = []\<rparr>,
    [WordBoundary 500 200 (ascii ''a&b''), Audio [255, 251, 144],
     WordBoundary 1200 200 (ascii ''a&b''), Audio [255, 251, 144]],
    Returned)"
proof -
  let ?c = "\<lparr>state = \<lparr>partialText = [], offsetCompensation = 0, lastDurationOffset = 0,
                         streamWasCalled = True\<rparr>,
               texts = [[65], [66]]\<rparr>"
  let ?st1 = "\<lparr>partialText = [65], offsetCompensation = 0, lastDurationOffset = 700,
                streamWasCalled = True\<rparr>"
  let ?st3 = "\<lparr>partialText = [66], offsetCompensation = 1400, lastDurationOffset = 1400,
                streamWasCalled = True\<rparr>"
  let ?q1 = "[Chunk (WordBoundary 500 200 (ascii ''a&b'')), Chunk (Audio [255, 251, 144])]"
  let ?q3 = "[Chunk (WordBoundary 1200 200 (ascii ''a&b'')), Chunk (Audio [255, 251, 144]), Close]"
  let ?events = "[OnMessage (WsMessage (StringData metadata_frame) None),
                  OnMessage (WsMessage (BinaryData frame_mpeg) None)]"
  let ?events' = "[OnMessage (WsMessage (StringData metadata_frame) None),
                   OnMessage (WsMessage (BinaryData frame_mpeg) None),
                   OnMessage (WsMessage (StringData turn_end_frame) None), OnClose]"
  have t: "texts ?c = [65] # [66] # []" by simp
  have nb: "(None :: bool option) \<noteq> Some True" by simp
  have k: "on_events sample_parser ((state ?c)\<lparr>partialText := [65]\<rparr>, []) ?events = (?st1, ?q1)"
    by (simp add: on_events_def handle_metadata_frame handle_frame_mpeg del: handleMessage.simps)
  have r: "consume False (?q1 @ [Close]) =
      ([WordBoundary 500 200 (ascii ''a&b''), Audio [255, 251, 144]], Returned)"
    by simp
  have k1: "on_events sample_parser
      (?st1\<lparr>offsetCompensation := lastDurationOffset ?st1, partialText := [66]\<rparr>, []) ?events' =
      (?st3, ?q3)"
    by (simp add: on_events_def handle_metadata_frame handle_frame_mpeg
        handleMessage_turn_end [OF text_path_turn_end_frame] del: handleMessage.simps)
  have "stream_loop sample_parser ?c [(Inr [], Opened ?events'), (Inr [], Opened ?events')] =
      (\<lparr>state = ?st3, texts = []\<rparr>,
       [WordBoundary 500 200 (ascii ''a&b''), Audio [255, 251, 144],
        WordBoundary 1200 200 (ascii ''a&b''), Audio [255, 251, 144]],
       Returned)"
    using offsetCompensation_carried_over [OF t text_path_turn_end_frame nb k r k1,
        where token = "[]" and token' = "[]" and outside = "[]", THEN conjunct2, THEN conjunct1]
    by (simp del: stream_loop.simps(2))
  then show ?thesis by (simp add: stream_def del: stream_loop.simps)
qed

section \<open>Properties of stream\<close>

lemma handleText_flag:
  "streamWasCalled (fst (handleText P sq s)) = streamWasCalled (fst sq)"
  by (simp add: handleText_def Let_def split: sum.splits)

lemma handleMessage_flag:
  "streamWasCalled (fst (handleMessage P sq m)) = streamWasCalled (fst sq)"
  by (cases "(P, sq, m)" rule: handleMessage.cases) (simp_all add: handleText_flag)

lemma on_event_flag:
  "streamWasCalled (fst (on_event P sq ev)) = streamWasCalled (fst sq)"
  by (cases ev) (simp_all add: handleMessage_flag)

lemma on_events_flag:
  "streamWasCalled (fst (on_events P sq evs)) = streamWasCalled (fst sq)"
  unfolding on_events_def
  by (induction evs arbitrary: sq) (simp_all add: on_event_flag)

lemma stream_chunk_flag:
  "streamWasCalled (fst (stream_chunk P st token conn)) = streamWasCalled st"
  by (cases "(P, st, token, conn)" rule: stream_chunk.cases) (simp_all add: on_events_flag)

lemma stream_loop_flag:
  "streamWasCalled (state c) \<Longrightarrow> streamWasCalled (state (fst (stream_loop P c outside)))"
proof (induction outside arbitrary: c)
  case Nil
  then show ?case by simp
next
  case (Cons a outside)
  obtain token conn where a: "a = (token, conn)" by (cases a)
  show ?case
  proof (cases "texts c")
    case Nil
    then show ?thesis using Cons.prems a by simp
  next
    case (Cons chunk remaining)
    obtain st' ms r where sc:
      "stream_chunk P ((state c)\<lparr>partialText := chunk\<rparr>) token conn = (st', ms, r)"
      by (cases "stream_chunk P ((state c)\<lparr>partialText := chunk\<rparr>) token conn")
    have f: "streamWasCalled st'"
      using stream_chunk_flag [of P "(state c)\<lparr>partialText := chunk\<rparr>" token conn] sc Cons.prems
      by simp
    show ?thesis
    proof (cases r)
      case Returned
      have "streamWasCalled (state (fst (stream_loop P \<lparr>state = st', texts = remaining\<rparr> outside)))"
        using Cons.IH [of "\<lparr>state = st', texts = remaining\<rparr>"] f by simp
      then show ?thesis using a Cons sc Returned
        by (auto split: prod.splits)
    next
      case (Threw e)
      then show ?thesis using a Cons sc f by simp
    next
      case Waiting
      then show ?thesis using a Cons sc f by simp
    qed
  qed
qed

lemma stream_flag: "streamWasCalled (state (fst (stream P c outside)))"
  using stream_loop_flag [of "c\<lparr>state := (state c)\<lparr>streamWasCalled := True\<rparr>\<rparr>" P outside]
  by (simp add: stream_def)

text \<open>
  Claim C9. A new session has not been started. After a run of \<open>stream\<close> on a
  session, whatever happened in it, the flag \<open>streamWasCalled\<close> is set, and any
  further run on that session throws the error "stream can only be called once.",
  yields no event and leaves the session as it is.
\<close>

theorem stream_once:
  "\<not> streamWasCalled (state (new_Communicate text)) \<and>
   streamWasCalled (state (fst (stream P c outside))) \<and>
   stream P' (fst (stream P c outside)) outside' =
     (fst (stream P c outside), [], Threw (Error ''stream can only be called once.''))"
  using stream_flag [of P c outside] by (simp add: stream_def new_Communicate_def)

section \<open>Properties of SubMaker\<close>

lemma feed_four_words:
  "feed_all [] four_words =
     Inr [\<lparr>index = 1, start = 0, end' = 3 / 10, content = ascii ''The''\<rparr>,
          \<lparr>index = 2, start = 3 / 10, end' = 6 / 10, content = ascii ''quick''\<rparr>,
          \<lparr>index = 3, start = 6 / 10, end' = 9 / 10, content = ascii ''brown''\<rparr>,
          \<lparr>index = 4, start = 9 / 10, end' = 12 / 10, content = ascii ''fox''\<rparr>]"
  by (simp add: four_words_def)

text \<open>
  Claim C8. Feeding the four words "The", "quick", "brown", "fox", each 3,000,000
  ticks long and one after the other from offset 0, to a new \<open>SubMaker\<close> and calling
  \<open>mergeCues 2\<close> gives exactly two cues: "The quick" from 0 to 0.6 seconds with
  index 1, and "brown fox" from 0.6 to 1.2 seconds with index 2. The comparison of
  the number of words is strict: a cue of two words takes no third one. (With
  \<open>mergeCues 3\<close> the cues are "The quick brown" and "fox".)
\<close>

theorem mergeCues_four_words:
  "(case feed_all [] four_words of Inl e \<Rightarrow> Inl e | Inr cues \<Rightarrow> mergeCues 2 cues) =
     Inr [\<lparr>index = 1, start = 0, end' = 6 / 10, content = ascii ''The quick''\<rparr>,
          \<lparr>index = 2, start = 6 / 10, end' = 12 / 10, content = ascii ''brown fox''\<rparr>] \<and>
   (case feed_all [] four_words of Inl e \<Rightarrow> Inl e | Inr cues \<Rightarrow> mergeCues 3 cues) =
     Inr [\<lparr>index = 1, start = 0, end' = 9 / 10, content = ascii ''The quick brown''\<rparr>,
          \<lparr>index = 2, start = 9 / 10, end' = 12 / 10, content = ascii ''fox''\<rparr>]"
  by (simp add: feed_four_words mergeCues_def ascii_def enumerate_eq_zip upt_rec)

end
